theory Spec2Isabelle
  imports Complex_Main "HOL-Library.Sublist"
begin

section \<open>Data model (types.ts)\<close>

text \<open>
  JavaScript numbers are modelled by their mathematical values: activation scores and
  resonance scores as \<open>real\<close>, turn counters, Fibonacci values and edge weights as
  \<open>int\<close>; the rounding of floating-point arithmetic is not modelled. An optional
  field \<open>f?: T\<close> is a \<open>T option\<close>, with \<open>None\<close> for \<open>undefined\<close>. An
  \<open>async\<close> function is modelled by the sequence of its steps; state the code keeps in
  module variables or object fields (the Fibonacci cache, the graph service) is passed in
  and returned.
\<close>

datatype MemoryAtomType =
  user_message | model_response | steward_note | conscious_thought
  | subconscious_reflection | axiom

datatype Role = user | model

text \<open>
  The fields \<open>generatedFiles\<close>, \<open>cognitiveTrace\<close> and \<open>backgroundInsight\<close> of
  \<open>MemoryAtom\<close> are never read by the recall engine or the graph and are left out; the
  fields \<open>type\<close> and \<open>text\<close> are called \<open>atype\<close> and \<open>atext\<close>.
\<close>

record MemoryAtom =
  uuid :: string
  timestamp :: int
  role :: Role
  atype :: MemoryAtomType
  atext :: string
  isInContext :: bool
  isCollapsed :: bool
  concepts :: "string list option"
  activationScore :: "real option"
  lastActivatedTurn :: "int option"

section \<open>Fibonacci decay (recallWeaverService.ts)\<close>

text \<open>The module-level \<open>fibCache\<close>: a \<open>Map<number, number>\<close>, empty at start.\<close>

type_synonym fibCache = "int \<rightharpoonup> int"

text \<open>
  \<open>fibonacci(n)\<close> reads and writes the cache, so the model takes the cache and returns
  it updated. The two recursive calls run left to right, the second one on the cache the
  first one leaves.
\<close>

function fibonacci :: "int \<Rightarrow> fibCache \<Rightarrow> int \<times> fibCache" where
  "fibonacci n c =
     (if n \<le> 1 then (1, c)
      else (case c n of
              Some v \<Rightarrow> (v, c)
            | None \<Rightarrow>
                (let limitedN = min n 40;
                     (a, c1) = fibonacci (limitedN - 1) c;
                     (b, c2) = fibonacci (limitedN - 2) c1;
                     result = a + b
                 in (result, c2(limitedN \<mapsto> result)))))"
  by pat_completeness auto
termination
  by (relation "measure (\<lambda>(n, c). nat n)") auto

declare fibonacci.simps [simp del]

text \<open>
  The decay step inside the \<open>ltm.map\<close> callback of \<open>recall\<close> (lines 47 to 53):
  \<open>score\<close> is \<open>atom.activationScore ?? 1.0\<close> and \<open>turnsOld\<close> is
  \<open>currentTurn - lastActivated\<close>.
\<close>

definition decay :: "real \<Rightarrow> int \<Rightarrow> fibCache \<Rightarrow> real \<times> fibCache" where
  "decay score turnsOld c =
     (if turnsOld > 0 then
        (let (fibValue, c') = fibonacci (turnsOld + 2) c;
             decayFactor = 1 / real_of_int fibValue
         in (max 0.01 (score * (1 - decayFactor)), c'))
      else (score, c))"

text \<open>The whole callback: a copy of the atom with the decayed score.\<close>

definition decayAtom :: "int \<Rightarrow> MemoryAtom \<Rightarrow> fibCache \<Rightarrow> MemoryAtom \<times> fibCache" where
  "decayAtom currentTurn atom c =
     (let lastActivated = (case lastActivatedTurn atom of None \<Rightarrow> 0 | Some t \<Rightarrow> t);
          turnsOld = currentTurn - lastActivated;
          (decayedScore, c') =
             decay (case activationScore atom of None \<Rightarrow> 1 | Some s \<Rightarrow> s) turnsOld c
      in (atom\<lparr>activationScore := Some decayedScore\<rparr>, c'))"

text \<open>\<open>ltm.map(...)\<close>: the callback runs on the atoms in order, sharing the cache.\<close>

fun decayLtm :: "int \<Rightarrow> MemoryAtom list \<Rightarrow> fibCache \<Rightarrow> MemoryAtom list \<times> fibCache" where
  "decayLtm currentTurn [] c = ([], c)"
| "decayLtm currentTurn (atom # atoms) c =
     (let (atom', c1) = decayAtom currentTurn atom c;
          (atoms', c2) = decayLtm currentTurn atoms c1
      in (atom' # atoms', c2))"

section \<open>The concept-association graph (srgService.ts)\<close>

text \<open>
  A JavaScript \<open>Map\<close> with string keys whose iteration order matters is an
  association list in insertion order: \<open>get\<close> is \<open>map_of\<close>, \<open>set\<close> overwrites
  the value of a key that is present, where it stands, and appends a new key at the end,
  \<open>delete\<close> removes the key.
\<close>

fun map_set :: "string \<Rightarrow> 'v \<Rightarrow> (string \<times> 'v) list \<Rightarrow> (string \<times> 'v) list" where
  "map_set k v [] = [(k, v)]"
| "map_set k v ((k', v') # m) = (if k' = k then (k, v) # m else (k', v') # map_set k v m)"

definition map_delete :: "string \<Rightarrow> (string \<times> 'v) list \<Rightarrow> (string \<times> 'v) list" where
  "map_delete k m = filter (\<lambda>e. fst e \<noteq> k) m"

text \<open>\<open>m.get(k) || 0\<close> on integer weights: a missing key and a zero weight both give 0.\<close>

definition getOrZero :: "(string \<times> int) list \<Rightarrow> string \<Rightarrow> int" where
  "getOrZero m k = (case map_of m k of None \<Rightarrow> 0 | Some w \<Rightarrow> w)"

text \<open>
  \<open>ConceptGraph = Map<string, Map<string, number>>\<close>. Only \<open>has\<close>, \<open>get\<close> and
  \<open>set\<close> are used on the outer map, so it is a partial function; the inner maps are
  iterated and keep their order.
\<close>

type_synonym ConceptGraph = "string \<rightharpoonup> (string \<times> int) list"

record SrgService =
  graph :: ConceptGraph
  isLoaded :: bool

datatype error = DbFailure

text \<open>
  \<open>loadGraph\<close>: the result of \<open>db.get('srgGraph', 'main')\<close> is a parameter, a
  failure (caught and logged by the code), no stored value, or a stored graph.
\<close>

definition loadGraph :: "error + ConceptGraph option \<Rightarrow> SrgService \<Rightarrow> SrgService" where
  "loadGraph stored s =
     (case stored of
        Inl e \<Rightarrow> s
      | Inr None \<Rightarrow> s\<lparr>isLoaded := True\<rparr>
      | Inr (Some storedGraph) \<Rightarrow> s\<lparr>graph := storedGraph, isLoaded := True\<rparr>)"

text \<open>The template literal \<open>`${atom.type}:${concept}`\<close>.\<close>

fun typeName :: "MemoryAtomType \<Rightarrow> string" where
  "typeName user_message = ''user_message''"
| "typeName model_response = ''model_response''"
| "typeName steward_note = ''steward_note''"
| "typeName conscious_thought = ''conscious_thought''"
| "typeName subconscious_reflection = ''subconscious_reflection''"
| "typeName axiom = ''axiom''"

definition compositeKey :: "MemoryAtomType \<Rightarrow> string \<Rightarrow> string" where
  "compositeKey t concept = typeName t @ '':'' @ concept"

text \<open>\<open>s.split(':')\<close> and \<open>parts.join(':')\<close>.\<close>

fun split_colon :: "string \<Rightarrow> string list" where
  "split_colon [] = [[]]"
| "split_colon (ch # s) =
     (if ch = CHR '':'' then [] # split_colon s
      else (case split_colon s of [] \<Rightarrow> [[ch]] | w # ws \<Rightarrow> (ch # w) # ws))"

fun join_colon :: "string list \<Rightarrow> string" where
  "join_colon [] = []"
| "join_colon [w] = w"
| "join_colon (w # ws) = w @ '':'' @ join_colon ws"

text \<open>\<open>followUpKey.split(':').slice(1).join(':')\<close>: the concept part of a key.\<close>

definition followUpConceptOf :: "string \<Rightarrow> string" where
  "followUpConceptOf followUpKey = join_colon (drop 1 (split_colon followUpKey))"

text \<open>
  \<open>xs.slice(0, k)\<close> and \<open>xs.slice(k)\<close>: a negative \<open>k\<close> counts from the end.
\<close>

definition slice0 :: "int \<Rightarrow> 'a list \<Rightarrow> 'a list" where
  "slice0 k xs = (if k < 0 then take (nat (int (length xs) + k)) xs else take (nat k) xs)"

definition sliceFrom :: "int \<Rightarrow> 'a list \<Rightarrow> 'a list" where
  "sliceFrom k xs = (if k < 0 then drop (nat (int (length xs) + k)) xs else drop (nat k) xs)"

subsection \<open>trainOnTransition\<close>

text \<open>
  The inner loop over \<open>targetConcepts\<close>, on the transitions map of one source key.
\<close>

fun trainTargets :: "MemoryAtomType \<Rightarrow> string list \<Rightarrow> (string \<times> int) list \<Rightarrow> (string \<times> int) list" where
  "trainTargets targetType [] transitions = transitions"
| "trainTargets targetType (tConcept # rest) transitions =
     (let targetKey = compositeKey targetType tConcept
      in trainTargets targetType rest
           (map_set targetKey (getOrZero transitions targetKey + 1) transitions))"

text \<open>
  The outer loop over \<open>sourceConcepts\<close>. A source key that is missing gets a new, empty
  transitions map; the map is then updated in place, which in the model is storing the
  updated map back under the key.
\<close>

fun trainSources ::
  "MemoryAtomType \<Rightarrow> MemoryAtomType \<Rightarrow> string list \<Rightarrow> string list \<Rightarrow> ConceptGraph \<Rightarrow> ConceptGraph" where
  "trainSources sourceType targetType [] targetConcepts g = g"
| "trainSources sourceType targetType (sConcept # rest) targetConcepts g =
     (let sourceKey = compositeKey sourceType sConcept;
          transitions = (case g sourceKey of None \<Rightarrow> [] | Some tr \<Rightarrow> tr)
      in trainSources sourceType targetType rest targetConcepts
           (g(sourceKey \<mapsto> trainTargets targetType targetConcepts transitions)))"

text \<open>
  The concepts an operation uses for an atom: \<open>atom.concepts || await
  extractConcepts(atom.text)\<close>. An empty array is truthy, so extraction runs only when
  the field is missing. \<open>extractConcepts\<close> calls a hosted model and is a parameter.
\<close>

definition conceptsOrExtract :: "(string \<Rightarrow> string list) \<Rightarrow> MemoryAtom \<Rightarrow> string list" where
  "conceptsOrExtract extractConcepts atom =
     (case concepts atom of Some cs \<Rightarrow> cs | None \<Rightarrow> extractConcepts (atext atom))"

text \<open>
  \<open>trainOnTransition\<close>. The debounced \<open>saveGraph\<close> at its end writes the graph to the
  database after a timer and touches nothing the model holds.
\<close>

definition trainOnTransition ::
  "error + ConceptGraph option \<Rightarrow> (string \<Rightarrow> string list) \<Rightarrow> SrgService
     \<Rightarrow> MemoryAtom \<Rightarrow> MemoryAtom \<Rightarrow> SrgService" where
  "trainOnTransition stored extractConcepts s sourceAtom targetAtom =
     (let s1 = (if \<not> isLoaded s then loadGraph stored s else s);
          sourceConcepts = conceptsOrExtract extractConcepts sourceAtom;
          targetConcepts = conceptsOrExtract extractConcepts targetAtom
      in if sourceConcepts = [] \<or> targetConcepts = [] then s1
         else s1\<lparr>graph := trainSources (atype sourceAtom) (atype targetAtom)
                              sourceConcepts targetConcepts (graph s1)\<rparr>)"

text \<open>The weight of an edge: 0 when the source key or the target key is missing.\<close>

definition edge_weight :: "ConceptGraph \<Rightarrow> string \<Rightarrow> string \<Rightarrow> int" where
  "edge_weight g sourceKey targetKey =
     (case g sourceKey of None \<Rightarrow> 0 | Some transitions \<Rightarrow> getOrZero transitions targetKey)"

subsection \<open>getFollowUpConcepts\<close>

text \<open>\<open>originalConcepts.add(concept)\<close> on a \<open>Set\<close>, kept in insertion order.\<close>

definition set_add :: "string \<Rightarrow> string list \<Rightarrow> string list" where
  "set_add x xs = (if x \<in> set xs then xs else xs @ [x])"

text \<open>The loop over \<open>transitions.entries()\<close>, adding each weight to its concept.\<close>

fun addTransitions :: "(string \<times> int) list \<Rightarrow> (string \<times> int) list \<Rightarrow> (string \<times> int) list" where
  "addTransitions [] associations = associations"
| "addTransitions ((followUpKey, weight) # rest) associations =
     (let followUpConcept = followUpConceptOf followUpKey
      in addTransitions rest
           (map_set followUpConcept (getOrZero associations followUpConcept + weight)
              associations))"

text \<open>The loop over the concepts of one atom; the state is both collections.\<close>

fun followConcepts ::
  "ConceptGraph \<Rightarrow> MemoryAtomType \<Rightarrow> string list
     \<Rightarrow> (string \<times> int) list \<times> string list \<Rightarrow> (string \<times> int) list \<times> string list" where
  "followConcepts g t [] st = st"
| "followConcepts g t (concept # rest) (associations, originalConcepts) =
     (let originalConcepts' = set_add concept originalConcepts;
          sourceKey = compositeKey t concept;
          associations' = (case g sourceKey of
                             None \<Rightarrow> associations
                           | Some transitions \<Rightarrow> addTransitions transitions associations)
      in followConcepts g t rest (associations', originalConcepts'))"

text \<open>\<open>atom.concepts || []\<close>.\<close>

definition conceptsOrEmpty :: "MemoryAtom \<Rightarrow> string list" where
  "conceptsOrEmpty atom = (case concepts atom of None \<Rightarrow> [] | Some cs \<Rightarrow> cs)"

text \<open>The loop over \<open>sourceAtoms\<close>.\<close>

fun followAtoms ::
  "ConceptGraph \<Rightarrow> MemoryAtom list
     \<Rightarrow> (string \<times> int) list \<times> string list \<Rightarrow> (string \<times> int) list \<times> string list" where
  "followAtoms g [] st = st"
| "followAtoms g (atom # rest) st =
     followAtoms g rest (followConcepts g (atype atom) (conceptsOrEmpty atom) st)"

text \<open>The loop deleting every original concept from the associations.\<close>

fun deleteOriginals :: "string list \<Rightarrow> (string \<times> int) list \<Rightarrow> (string \<times> int) list" where
  "deleteOriginals [] associations = associations"
| "deleteOriginals (concept # rest) associations =
     deleteOriginals rest (map_delete concept associations)"

text \<open>
  \<open>getFollowUpConcepts\<close>. \<open>Array.prototype.sort\<close> is stable, and so is
  \<open>sort_key\<close>; the comparator \<open>b[1] - a[1]\<close> orders by weight, largest first.
\<close>

definition getFollowUpConcepts ::
  "error + ConceptGraph option \<Rightarrow> SrgService \<Rightarrow> MemoryAtom list \<Rightarrow> int
     \<Rightarrow> string list \<times> SrgService" where
  "getFollowUpConcepts stored s sourceAtoms topK =
     (let s1 = (if \<not> isLoaded s then loadGraph stored s else s);
          (associations, originalConcepts) = followAtoms (graph s1) sourceAtoms ([], []);
          associations' = deleteOriginals originalConcepts associations
      in (map fst (slice0 topK (sort_key (\<lambda>e. - snd e) associations')), s1))"

section \<open>Recall (recallWeaverService.ts)\<close>

definition STM_CAPACITY :: int where "STM_CAPACITY = 15"
definition LTM_RECALL_K :: int where "LTM_RECALL_K = 5"
definition AXIOM_RECALL_K :: int where "AXIOM_RECALL_K = 3"

text \<open>
  The resonance of a general memory, lines 66 to 75: the number of the atom's concepts
  that the expanded query holds, then 2 more for every concept of the atom that is a
  follow-up concept. \<open>expandedQueryConcepts\<close> is a \<open>Set\<close>.
\<close>

definition memoryResonance :: "string set \<Rightarrow> string list \<Rightarrow> MemoryAtom \<Rightarrow> real" where
  "memoryResonance expandedQueryConcepts followUpConcepts atom =
     (case concepts atom of
        None \<Rightarrow> 0
      | Some cs \<Rightarrow>
          if expandedQueryConcepts \<noteq> {} \<and> cs \<noteq> [] then
            (let sharedConcepts = filter (\<lambda>c. c \<in> expandedQueryConcepts) cs
             in foldl (\<lambda>resonanceScore concept.
                         if concept \<in> set followUpConcepts then resonanceScore + 2
                         else resonanceScore)
                  (real (length sharedConcepts)) cs)
          else 0)"

text \<open>The callback of step 4, which pairs a scoring copy with its final score.\<close>

definition scoreMemory :: "string set \<Rightarrow> string list \<Rightarrow> MemoryAtom \<Rightarrow> MemoryAtom \<times> real" where
  "scoreMemory expandedQueryConcepts followUpConcepts atom =
     (let resonanceScore = memoryResonance expandedQueryConcepts followUpConcepts atom
      in if resonanceScore = 0 then (atom, 0)
         else (let resonanceScore' =
                     (if atype atom = subconscious_reflection then resonanceScore * 1.1
                      else resonanceScore);
                   finalScore =
                     resonanceScore' * (case activationScore atom of None \<Rightarrow> 1 | Some x \<Rightarrow> x)
               in (atom, finalScore)))"

text \<open>The resonance of an axiom, lines 86 to 90, and the callback of step 5.\<close>

definition axiomResonance :: "string list \<Rightarrow> MemoryAtom \<Rightarrow> real" where
  "axiomResonance stmConcepts atom =
     (case concepts atom of
        None \<Rightarrow> 0
      | Some cs \<Rightarrow>
          if stmConcepts \<noteq> [] \<and> cs \<noteq> [] then
            (let sharedConcepts = filter (\<lambda>c. c \<in> set stmConcepts) cs
             in real (length sharedConcepts * 2))
          else 0)"

definition scoreAxiom :: "string list \<Rightarrow> MemoryAtom \<Rightarrow> MemoryAtom \<times> real" where
  "scoreAxiom stmConcepts atom =
     (let resonanceScore = axiomResonance stmConcepts atom;
          finalScore = resonanceScore * (case activationScore atom of None \<Rightarrow> 1 | Some x \<Rightarrow> x)
      in (atom, finalScore))"

text \<open>
  Step 6 for one pool: keep the positive scores, sort by score, largest first (the sort
  is stable), cut to the first \<open>k\<close>, and look every scoring copy up in \<open>ltm\<close> by
  its \<open>uuid\<close>. \<open>find\<close> gives \<open>undefined\<close>, here \<open>None\<close>, when nothing matches.
\<close>

definition topAtoms :: "int \<Rightarrow> MemoryAtom list \<Rightarrow> (MemoryAtom \<times> real) list \<Rightarrow> MemoryAtom option list" where
  "topAtoms k ltm scored =
     map (\<lambda>item. find (\<lambda>originalAtom. uuid originalAtom = uuid (fst item)) ltm)
       (slice0 k (sort_key (\<lambda>item. - snd item) (filter (\<lambda>item. snd item > 0) scored)))"

record RecallResult =
  memories :: "MemoryAtom option list"
  axioms :: "MemoryAtom option list"

text \<open>
  Steps 1 to 5 of \<open>recall\<close>, for a log longer than \<open>STM_CAPACITY\<close>: the archive, the
  two scored pools, and the cache and graph service as the steps leave them.
\<close>

definition recallScoring ::
  "error + ConceptGraph option \<Rightarrow> SrgService \<Rightarrow> fibCache \<Rightarrow> MemoryAtom list \<Rightarrow> int
     \<Rightarrow> MemoryAtom list \<times> (MemoryAtom \<times> real) list \<times> (MemoryAtom \<times> real) list
         \<times> fibCache \<times> SrgService" where
  "recallScoring stored s c memory currentTurn =
     (let stm = sliceFrom (- STM_CAPACITY) memory;
          ltm = slice0 (- STM_CAPACITY) memory;
          (decayedLtm, c') = decayLtm currentTurn ltm c;
          stmConcepts = concat (map conceptsOrEmpty stm);
          (followUpConcepts, s') = getFollowUpConcepts stored s stm 10;
          expandedQueryConcepts = set (stmConcepts @ followUpConcepts);
          scoredMemories =
            map (scoreMemory expandedQueryConcepts followUpConcepts)
              (filter (\<lambda>atom. atype atom \<noteq> axiom) decayedLtm);
          scoredAxioms =
            map (scoreAxiom stmConcepts) (filter (\<lambda>atom. atype atom = axiom) decayedLtm)
      in (ltm, scoredMemories, scoredAxioms, c', s'))"

text \<open>\<open>recall\<close>: the early return, then the scoring and step 6.\<close>

definition recall ::
  "error + ConceptGraph option \<Rightarrow> SrgService \<Rightarrow> fibCache \<Rightarrow> MemoryAtom list \<Rightarrow> int
     \<Rightarrow> RecallResult \<times> fibCache \<times> SrgService" where
  "recall stored s c memory currentTurn =
     (if int (length memory) \<le> STM_CAPACITY then (\<lparr>memories = [], axioms = []\<rparr>, c, s)
      else (let (ltm, scoredMemories, scoredAxioms, c', s') =
                  recallScoring stored s c memory currentTurn;
                topMemories = topAtoms LTM_RECALL_K ltm scoredMemories;
                topAxioms = topAtoms AXIOM_RECALL_K ltm scoredAxioms
            in (\<lparr>memories = topMemories, axioms = topAxioms\<rparr>, c', s')))"

subsection \<open>Recall over object references\<close>

text \<open>
  The same function with the atoms as objects in a store, to state what \<open>recall\<close>
  does to the objects it is handed. A reference is an index into the store, the log is a
  list of references, and the spread \<open>{ ...atom, activationScore: decayedScore }\<close>
  allocates a new object. Every reference of the log is below the length of the store.
\<close>

type_synonym ref = nat
type_synonym store = "MemoryAtom list"

definition alloc :: "MemoryAtom \<Rightarrow> store \<Rightarrow> ref \<times> store" where
  "alloc obj h = (length h, h @ [obj])"

fun decayLtmRefs :: "int \<Rightarrow> ref list \<Rightarrow> fibCache \<Rightarrow> store \<Rightarrow> ref list \<times> fibCache \<times> store" where
  "decayLtmRefs currentTurn [] c h = ([], c, h)"
| "decayLtmRefs currentTurn (r # rs) c h =
     (let (copy, c1) = decayAtom currentTurn (h ! r) c;
          (r', h1) = alloc copy h;
          (rs', c2, h2) = decayLtmRefs currentTurn rs c1 h1
      in (r' # rs', c2, h2))"

definition topRefs :: "int \<Rightarrow> store \<Rightarrow> ref list \<Rightarrow> (ref \<times> real) list \<Rightarrow> ref option list" where
  "topRefs k h ltm scored =
     map (\<lambda>item. find (\<lambda>originalAtom. uuid (h ! originalAtom) = uuid (h ! fst item)) ltm)
       (slice0 k (sort_key (\<lambda>item. - snd item) (filter (\<lambda>item. snd item > 0) scored)))"

record RecallRefs =
  memoryRefs :: "ref option list"
  axiomRefs :: "ref option list"

definition recallRefs ::
  "error + ConceptGraph option \<Rightarrow> SrgService \<Rightarrow> fibCache \<Rightarrow> store \<Rightarrow> ref list \<Rightarrow> int
     \<Rightarrow> RecallRefs \<times> store \<times> fibCache \<times> SrgService" where
  "recallRefs stored s c h memory currentTurn =
     (if int (length memory) \<le> STM_CAPACITY then (\<lparr>memoryRefs = [], axiomRefs = []\<rparr>, h, c, s)
      else (let stm = sliceFrom (- STM_CAPACITY) memory;
                ltm = slice0 (- STM_CAPACITY) memory;
                (decayedLtm, c', h') = decayLtmRefs currentTurn ltm c h;
                stmConcepts = concat (map (\<lambda>r. conceptsOrEmpty (h' ! r)) stm);
                (followUpConcepts, s') =
                   getFollowUpConcepts stored s (map (\<lambda>r. h' ! r) stm) 10;
                expandedQueryConcepts = set (stmConcepts @ followUpConcepts);
                scoredMemories =
                  map (\<lambda>r. (r, snd (scoreMemory expandedQueryConcepts followUpConcepts (h' ! r))))
                    (filter (\<lambda>r. atype (h' ! r) \<noteq> axiom) decayedLtm);
                scoredAxioms =
                  map (\<lambda>r. (r, snd (scoreAxiom stmConcepts (h' ! r))))
                    (filter (\<lambda>r. atype (h' ! r) = axiom) decayedLtm)
            in (\<lparr>memoryRefs = topRefs LTM_RECALL_K h' ltm scoredMemories,
                 axiomRefs = topRefs AXIOM_RECALL_K h' ltm scoredAxioms\<rparr>, h', c', s')))"

section \<open>Reference notions\<close>

subsection \<open>The Fibonacci sequence and the decay of the spec\<close>

text \<open>
  The sequence the spec names: \<open>fib 0 = fib 1 = 1\<close>, each later value the sum of the
  two before it. It is the reference the memoised function is compared with.
\<close>

fun fib_seq :: "nat \<Rightarrow> int" where
  "fib_seq 0 = 1"
| "fib_seq (Suc 0) = 1"
| "fib_seq (Suc (Suc n)) = fib_seq (Suc n) + fib_seq n"

text \<open>
  A cache is sound when every entry holds the capped Fibonacci value of its key. The
  empty cache is sound and \<open>fibonacci\<close> keeps a sound cache sound, so every cache the
  program reaches is.
\<close>

definition cache_ok :: "fibCache \<Rightarrow> bool" where
  "cache_ok c = (\<forall>k v. c k = Some v \<longrightarrow> v = fib_seq (min (nat k) 40))"

text \<open>
  The decay of the spec, \<open>decay(score, turnsOld)\<close>, written from its words over the
  capped sequence; \<open>decay\<close> above is the code.
\<close>

definition decay_spec :: "real \<Rightarrow> int \<Rightarrow> real" where
  "decay_spec score turnsOld =
     (if turnsOld \<le> 0 then score
      else max 0.01 (score * (1 - 1 / real_of_int (fib_seq (min (nat (turnsOld + 2)) 40)))))"

text \<open>
  The decayed score of an atom at a turn, with the defaults of the code for missing
  fields, and the scoring copy that carries it.
\<close>

definition decayedScore :: "int \<Rightarrow> MemoryAtom \<Rightarrow> real" where
  "decayedScore currentTurn a =
     decay_spec (case activationScore a of None \<Rightarrow> 1 | Some x \<Rightarrow> x)
       (currentTurn - (case lastActivatedTurn a of None \<Rightarrow> 0 | Some l \<Rightarrow> l))"

definition decayedCopy :: "int \<Rightarrow> MemoryAtom \<Rightarrow> MemoryAtom" where
  "decayedCopy currentTurn a = a\<lparr>activationScore := Some (decayedScore currentTurn a)\<rparr>"

subsection \<open>The query context of recall\<close>

text \<open>
  Names for the values \<open>recall\<close> computes on the way: the working set and the
  archive (steps 1), the concepts of the working set, the follow-up concepts and the
  expanded query (step 3).
\<close>

definition stmOf :: "MemoryAtom list \<Rightarrow> MemoryAtom list" where
  "stmOf memory = sliceFrom (- STM_CAPACITY) memory"

definition ltmOf :: "MemoryAtom list \<Rightarrow> MemoryAtom list" where
  "ltmOf memory = slice0 (- STM_CAPACITY) memory"

definition stmConceptsOf :: "MemoryAtom list \<Rightarrow> string list" where
  "stmConceptsOf memory = concat (map conceptsOrEmpty (stmOf memory))"

definition followUpsOf ::
  "error + ConceptGraph option \<Rightarrow> SrgService \<Rightarrow> MemoryAtom list \<Rightarrow> string list" where
  "followUpsOf stored s memory = fst (getFollowUpConcepts stored s (stmOf memory) 10)"

definition expandedOf ::
  "error + ConceptGraph option \<Rightarrow> SrgService \<Rightarrow> MemoryAtom list \<Rightarrow> string set" where
  "expandedOf stored s memory = set (stmConceptsOf memory @ followUpsOf stored s memory)"

subsection \<open>Aggregated edge weights\<close>

text \<open>The values of a list in the order in which each is first met.\<close>

fun firstSeen :: "'a list \<Rightarrow> 'a list" where
  "firstSeen [] = []"
| "firstSeen (x # xs) = x # removeAll x (firstSeen xs)"

text \<open>Adding a list of (concept, weight) pairs to an association map, one by one.\<close>

fun accumulate :: "(string \<times> int) list \<Rightarrow> (string \<times> int) list \<Rightarrow> (string \<times> int) list" where
  "accumulate [] m = m"
| "accumulate ((c, w) # es) m = accumulate es (map_set c (getOrZero m c + w) m)"

text \<open>
  The outgoing edges of a source key as (target concept, weight) pairs, the target
  category dropped; and all the edges the loops of \<open>getFollowUpConcepts\<close> meet for a
  list of atoms, in the order they meet them: atom by atom, concept by concept, entry by
  entry. A source key that occurs twice among the concepts of the atoms is walked twice,
  as lines 220 to 232 do.
\<close>

definition transitionEdges :: "(string \<times> int) list \<Rightarrow> (string \<times> int) list" where
  "transitionEdges tr = map (\<lambda>e. (followUpConceptOf (fst e), snd e)) tr"

definition keyEdges :: "ConceptGraph \<Rightarrow> string \<Rightarrow> (string \<times> int) list" where
  "keyEdges g k = (case g k of None \<Rightarrow> [] | Some tr \<Rightarrow> transitionEdges tr)"

definition followUpEdges :: "ConceptGraph \<Rightarrow> MemoryAtom list \<Rightarrow> (string \<times> int) list" where
  "followUpEdges g atoms =
     concat (map (\<lambda>a. concat (map (\<lambda>c. keyEdges g (compositeKey (atype a) c))
                                 (conceptsOrEmpty a))) atoms)"

text \<open>
  The weight the code accumulates for a target concept: the sum over all edges met, an
  edge counted once for every occurrence of its source key.
\<close>

definition accumulatedWeight :: "ConceptGraph \<Rightarrow> MemoryAtom list \<Rightarrow> string \<Rightarrow> int" where
  "accumulatedWeight g atoms c =
     sum_list (map snd (filter (\<lambda>e. fst e = c) (followUpEdges g atoms)))"

text \<open>
  The aggregated weight in the words of the spec: the source keys of the input atoms,
  category and concept joined, form a union, and the outgoing edges of every key of the
  union are summed by target concept, each edge once.
\<close>

definition sourceKeys :: "MemoryAtom list \<Rightarrow> string list" where
  "sourceKeys atoms =
     concat (map (\<lambda>a. map (compositeKey (atype a)) (conceptsOrEmpty a)) atoms)"

definition unionWeight :: "ConceptGraph \<Rightarrow> MemoryAtom list \<Rightarrow> string \<Rightarrow> int" where
  "unionWeight g atoms c =
     sum_list (map snd (filter (\<lambda>e. fst e = c)
       (concat (map (keyEdges g) (remdups (sourceKeys atoms))))))"

text \<open>
  The same sum with every key of the union weighted by the number of times it occurs
  among the source keys.
\<close>

definition occurrenceWeight :: "ConceptGraph \<Rightarrow> MemoryAtom list \<Rightarrow> string \<Rightarrow> int" where
  "occurrenceWeight g atoms c =
     sum_list (map (\<lambda>k. int (count_list (sourceKeys atoms) k)
                          * sum_list (map snd (filter (\<lambda>e. fst e = c) (keyEdges g k))))
       (remdups (sourceKeys atoms)))"

text \<open>
  The candidates: the target concepts met, in first-met order, without the concepts of
  the input atoms themselves.
\<close>

definition candidates :: "ConceptGraph \<Rightarrow> MemoryAtom list \<Rightarrow> string list" where
  "candidates g atoms =
     filter (\<lambda>c. c \<notin> set (concat (map conceptsOrEmpty atoms)))
       (firstSeen (map fst (followUpEdges g atoms)))"

subsection \<open>Example data\<close>

definition mkAtom ::
  "string \<Rightarrow> MemoryAtomType \<Rightarrow> string list option \<Rightarrow> real option \<Rightarrow> int option \<Rightarrow> MemoryAtom" where
  "mkAtom u t cs score lastTurn =
     \<lparr>uuid = u, timestamp = 0, role = user, atype = t, atext = [], isInContext = True,
      isCollapsed = False, concepts = cs, activationScore = score,
      lastActivatedTurn = lastTurn\<rparr>"

text \<open>A graph with one edge of weight 2, for training.\<close>

definition trainGraph :: ConceptGraph where
  "trainGraph = [''user_message:a'' \<mapsto> [(''model_response:b'', 2)]]"

text \<open>
  A graph and an atom for follow-up concepts: the accumulated weights are 3 for \<open>x\<close>,
  3 for \<open>y\<close>, 5 for \<open>a\<close> (a concept of the atom itself) and 4 for \<open>z\<close>.
\<close>

definition followGraph :: ConceptGraph where
  "followGraph =
     [''user_message:a'' \<mapsto>
        [(''model_response:x'', 2), (''axiom:y'', 2), (''model_response:a'', 5)],
      ''user_message:b'' \<mapsto>
        [(''steward_note:y'', 1), (''axiom:z'', 4), (''user_message:x'', 1)]]"

definition followAtomsExample :: "MemoryAtom list" where
  "followAtomsExample = [mkAtom ''u1'' user_message (Some [''a'', ''b'']) None None]"

text \<open>
  Three user messages, two of them with the concept \<open>a\<close>, on a loaded graph with an
  edge of weight 3 from \<open>b\<close> to \<open>y\<close> and one of weight 2 from \<open>a\<close> to \<open>x\<close>.
\<close>

definition unionService :: SrgService where
  "unionService =
     \<lparr>graph = [''user_message:b'' \<mapsto> [(''model_response:y'', 3)],
               ''user_message:a'' \<mapsto> [(''model_response:x'', 2)]],
      isLoaded = True\<rparr>"

definition unionAtoms :: "MemoryAtom list" where
  "unionAtoms =
     [mkAtom ''v1'' user_message (Some [''b'']) None None,
      mkAtom ''v2'' user_message (Some [''a'']) None None,
      mkAtom ''v3'' user_message (Some [''a'']) None None]"

text \<open>
  For training: a loaded service, a new, not yet loaded one whose stored snapshot is
  the training graph, and a not yet loaded one that holds the training graph while the
  stored snapshot is empty; an extraction that finds no concept; and atoms whose
  concept lists are empty and repeated.
\<close>

definition trainLoaded :: SrgService where
  "trainLoaded = \<lparr>graph = trainGraph, isLoaded = True\<rparr>"

definition trainUnloaded :: SrgService where
  "trainUnloaded = \<lparr>graph = Map.empty, isLoaded = False\<rparr>"

definition trainStale :: SrgService where
  "trainStale = \<lparr>graph = trainGraph, isLoaded = False\<rparr>"

definition noExtraction :: "string \<Rightarrow> string list" where
  "noExtraction t = []"

definition sourceTwice :: MemoryAtom where
  "sourceTwice = mkAtom ''u1'' user_message (Some [''a'', ''a'']) None None"

definition targetTwice :: MemoryAtom where
  "targetTwice = mkAtom ''u2'' model_response (Some [''b'', ''b'']) None None"

definition sourceEmpty :: MemoryAtom where
  "sourceEmpty = mkAtom ''u1'' user_message (Some []) None None"

text \<open>
  The scenarios of the spec in one log, recalled at turn 20: an archive of six atoms
  before a working set of fifteen. The working set holds the concepts \<open>p\<close>,
  \<open>r\<close>, \<open>s\<close>, and the graph predicts \<open>q\<close> after \<open>p\<close>.
\<close>

definition recallGraph :: SrgService where
  "recallGraph =
     \<lparr>graph = [''user_message:p'' \<mapsto> [(''model_response:q'', 1)]], isLoaded = True\<rparr>"

definition ltmExample :: "MemoryAtom list" where
  "ltmExample =
     [mkAtom ''m0'' model_response (Some [''p'', ''q'']) (Some 1) (Some 10),
      mkAtom ''m1'' axiom (Some [''p'', ''r'', ''s'']) (Some 1) (Some 20),
      mkAtom ''m2'' user_message (Some [''p'', ''r'', ''s'']) (Some 1) (Some 20),
      mkAtom ''m3'' axiom (Some [''zz'']) (Some 1) (Some 10),
      mkAtom ''m4'' subconscious_reflection (Some [''q'']) (Some 0.5) (Some 19),
      mkAtom ''m5'' model_response (Some [''zz'']) (Some 1) (Some 10)]"

definition stmExample :: "MemoryAtom list" where
  "stmExample =
     [mkAtom ''s00'' user_message (Some [''p'', ''r'', ''s'']) None None,
      mkAtom ''s01'' model_response None None None,
      mkAtom ''s02'' user_message (Some []) None None,
      mkAtom ''s03'' model_response None None None,
      mkAtom ''s04'' user_message None None None,
      mkAtom ''s05'' model_response None None None,
      mkAtom ''s06'' user_message None None None,
      mkAtom ''s07'' model_response None None None,
      mkAtom ''s08'' user_message None None None,
      mkAtom ''s09'' model_response None None None,
      mkAtom ''s10'' user_message None None None,
      mkAtom ''s11'' model_response None None None,
      mkAtom ''s12'' user_message None None None,
      mkAtom ''s13'' model_response None None None,
      mkAtom ''s14'' user_message None None None]"

definition logExample :: "MemoryAtom list" where
  "logExample = ltmExample @ stmExample"


text \<open>
  The example log as a store: its atoms at the addresses 0 to 20, the log the list of
  these addresses, and the store after the call, with the six scoring copies.
\<close>

definition refsExample :: "ref list" where
  "refsExample = [0, 1, 2, 3, 4, 5, 6, 7, 8, 9, 10, 11, 12, 13, 14, 15, 16, 17, 18, 19, 20]"

definition storeExample :: store where
  "storeExample = logExample @ map (decayedCopy 20) ltmExample"

section \<open>Properties of the decay\<close>

lemma cache_ok_empty: "cache_ok Map.empty"
  by (simp add: cache_ok_def)

lemma cache_ok_upd:
  "cache_ok c \<Longrightarrow> v = fib_seq (min (nat k) 40) \<Longrightarrow> cache_ok (c(k \<mapsto> v))"
  by (simp add: cache_ok_def)

lemma fib_seq_pos: "1 \<le> fib_seq n"
  by (induction n rule: fib_seq.induct) auto

lemma fib_seq_step:
  assumes "2 \<le> m" "m \<le> 40"
  shows "fib_seq (min (nat (m - 1)) 40) + fib_seq (min (nat (m - 2)) 40) = fib_seq (nat m)"
proof -
  have "nat m = Suc (Suc (nat (m - 2)))" using assms by linarith
  moreover have "nat (m - 1) = Suc (nat (m - 2))" using assms by linarith
  moreover have "nat (m - 2) \<le> 40" "Suc (nat (m - 2)) \<le> 40" using assms by linarith+
  ultimately show ?thesis by (simp only: min_absorb1 fib_seq.simps)
qed

lemma fibonacci_sound:
  "cache_ok c \<Longrightarrow>
     fst (fibonacci n c) = fib_seq (min (nat n) 40) \<and> cache_ok (snd (fibonacci n c))"
proof (induction n c rule: fibonacci.induct)
  case (1 n c)
  show ?case
  proof (cases "n \<le> 1")
    case True
    then have "nat n = 0 \<or> nat n = Suc 0" by linarith
    then show ?thesis
      using True "1.prems" by (subst fibonacci.simps, subst (2) fibonacci.simps) auto
  next
    case False
    show ?thesis
    proof (cases "c n")
      case (Some v)
      then show ?thesis
        using False "1.prems"
        by (subst fibonacci.simps, subst (2) fibonacci.simps) (simp add: cache_ok_def)
    next
      case None
      define m where "m = min n 40"
      obtain a c1 where r1: "fibonacci (m - 1) c = (a, c1)" by (cases "fibonacci (m - 1) c")
      obtain b c2 where r2: "fibonacci (m - 2) c1 = (b, c2)" by (cases "fibonacci (m - 2) c1")
      have ih1: "a = fib_seq (min (nat (m - 1)) 40) \<and> cache_ok c1"
        using "1.IH"(1)[OF False None m_def] "1.prems" r1 by simp
      have ih2: "b = fib_seq (min (nat (m - 2)) 40) \<and> cache_ok c2"
        using "1.IH"(2)[OF False None m_def refl r1[symmetric]] ih1 r2 by simp
      have m: "2 \<le> m" "m \<le> 40" using False by (auto simp: m_def)
      have sum: "a + b = fib_seq (nat m)"
        using ih1 ih2 fib_seq_step[OF m] by simp
      have res: "fibonacci n c = (a + b, c2(m \<mapsto> a + b))"
        using False None r1 r2 by (subst fibonacci.simps) (simp add: m_def Let_def)
      have cap: "min (nat n) 40 = nat m" "min (nat m) 40 = nat m"
        using False by (auto simp: m_def min_def)
      have "cache_ok (c2(m \<mapsto> a + b))"
        by (rule cache_ok_upd) (use ih2 sum cap in simp_all)
      then show ?thesis
        unfolding res fst_conv snd_conv cap sum by (simp only: sum simp_thms)
    qed
  qed
qed

lemma fib_seq_mono_Suc: "fib_seq n \<le> fib_seq (Suc n)"
  using fib_seq_pos[of "n - 1"] by (cases n) auto

lemma fib_seq_mono: "a \<le> b \<Longrightarrow> fib_seq a \<le> fib_seq b"
  by (rule lift_Suc_mono_le[of fib_seq]) (auto simp: fib_seq_mono_Suc)

lemma decay_sound:
  assumes "cache_ok c"
  shows "fst (decay score turnsOld c) = decay_spec score turnsOld"
    and "cache_ok (snd (decay score turnsOld c))"
  using fibonacci_sound[OF assms, of "turnsOld + 2"] assms
  by (auto simp: decay_def decay_spec_def split_beta Let_def)

lemma decayAtom_sound:
  assumes "cache_ok c"
  shows "fst (decayAtom t a c) =
           a\<lparr>activationScore :=
               Some (decay_spec (case activationScore a of None \<Rightarrow> 1 | Some s \<Rightarrow> s)
                       (t - (case lastActivatedTurn a of None \<Rightarrow> 0 | Some l \<Rightarrow> l)))\<rparr>"
    and "cache_ok (snd (decayAtom t a c))"
  using decay_sound[OF assms] by (simp_all add: decayAtom_def split_beta Let_def)

lemma decayAtom_copy:
  assumes "cache_ok c"
  shows "fst (decayAtom t a c) = decayedCopy t a"
  using decayAtom_sound(1)[OF assms] by (simp add: decayedCopy_def decayedScore_def)

lemma decayLtm_sound:
  "cache_ok c \<Longrightarrow>
     fst (decayLtm t atoms c) = map (decayedCopy t) atoms \<and> cache_ok (snd (decayLtm t atoms c))"
proof (induction atoms arbitrary: c)
  case Nil
  then show ?case by simp
next
  case (Cons a atoms)
  have 1: "fst (decayAtom t a c) = decayedCopy t a" "cache_ok (snd (decayAtom t a c))"
    using decayAtom_copy[OF Cons.prems] decayAtom_sound(2)[OF Cons.prems] by simp_all
  show ?case
    using Cons.IH[OF 1(2)] 1 by (simp add: split_beta Let_def)
qed

lemma decay_spec_floor: "0 < t \<or> 0.01 \<le> score \<Longrightarrow> 0.01 \<le> decay_spec score t"
proof (cases "t \<le> 0")
  case True
  assume "0 < t \<or> 0.01 \<le> score"
  with True have "0.01 \<le> score" by linarith
  with True show ?thesis by (simp only: decay_spec_def if_True)
next
  case False
  then show ?thesis by (simp only: decay_spec_def if_False max.cobounded1)
qed

lemma decay_factor_range:
  "0 \<le> 1 - 1 / real_of_int (fib_seq n)" "1 - 1 / real_of_int (fib_seq n) \<le> 1"
  using fib_seq_pos[of n] by (simp_all add: field_simps)

lemma decay_spec_le: "0.01 \<le> score \<Longrightarrow> decay_spec score t \<le> score"
proof (cases "t \<le> 0")
  case True
  then show ?thesis by (simp add: decay_spec_def)
next
  case False
  assume s: "0.01 \<le> score"
  have "score * (1 - 1 / real_of_int (fib_seq (min (nat (t + 2)) 40))) \<le> score * 1"
    by (rule mult_left_mono) (use s decay_factor_range in auto)
  then show ?thesis using s False by (simp add: decay_spec_def)
qed

lemma decay_spec_mono:
  assumes "0 \<le> score" "0 < t" "t \<le> t'"
  shows "decay_spec score t \<le> decay_spec score t'"
proof -
  let ?f = "\<lambda>u. real_of_int (fib_seq (min (nat (u + 2)) 40))"
  have "fib_seq (min (nat (t + 2)) 40) \<le> fib_seq (min (nat (t' + 2)) 40)"
    by (rule fib_seq_mono) (use assms in auto)
  then have le: "?f t \<le> ?f t'" by simp
  have pos: "0 < ?f t" using fib_seq_pos[of "min (nat (t + 2)) 40"] by simp
  have "1 / ?f t' \<le> 1 / ?f t"
    using le pos by (simp add: frac_le)
  then have "score * (1 - 1 / ?f t) \<le> score * (1 - 1 / ?f t')"
    using assms(1) by (intro mult_left_mono) auto
  then show ?thesis using assms by (simp add: decay_spec_def max.coboundedI2)
qed

text \<open>
  C3. From a sound cache, the decay computation returns the score unchanged when
  \<open>turnsOld \<le> 0\<close> (so \<open>decay(score, 0) = score\<close>), and otherwise
  \<open>max(0.01, score * (1 - 1 / fib(turnsOld + 2)))\<close>; \<open>fibonacci\<close> returns the
  Fibonacci sequence capped at index 40, so \<open>fib(n) = fib(40)\<close> for every \<open>n > 40\<close>;
  and the cache stays sound.
\<close>

theorem C3_decay_formula:
  assumes "cache_ok c"
  shows "(turnsOld \<le> 0 \<longrightarrow> decay score turnsOld c = (score, c))
       \<and> fst (decay score 0 c) = score
       \<and> (0 < turnsOld \<longrightarrow>
            fst (decay score turnsOld c) =
              max 0.01 (score * (1 - 1 / real_of_int (fst (fibonacci (turnsOld + 2) c)))))
       \<and> (0 < turnsOld \<longrightarrow>
            fst (decay score turnsOld c) =
              max 0.01 (score * (1 - 1 / real_of_int (fib_seq (min (nat (turnsOld + 2)) 40)))))
       \<and> fst (fibonacci n c) = fib_seq (min (nat n) 40)
       \<and> (40 < n \<longrightarrow> fst (fibonacci n c) = fst (fibonacci 40 c))
       \<and> cache_ok (snd (fibonacci n c))
       \<and> cache_ok (snd (decay score turnsOld c))"
proof -
  have 1: "turnsOld \<le> 0 \<longrightarrow> decay score turnsOld c = (score, c)"
    by (simp add: decay_def)
  have 2: "fst (decay score 0 c) = score"
    by (simp add: decay_def)
  have 3: "0 < turnsOld \<longrightarrow>
            fst (decay score turnsOld c) =
              max 0.01 (score * (1 - 1 / real_of_int (fst (fibonacci (turnsOld + 2) c))))"
    by (simp add: decay_def split_beta Let_def)
  have 4: "fst (fibonacci n c) = fib_seq (min (nat n) 40)"
    and 6: "cache_ok (snd (fibonacci n c))"
    using fibonacci_sound[OF assms, of n] by simp_all
  have 5: "40 < n \<longrightarrow> fst (fibonacci n c) = fst (fibonacci 40 c)"
    using fibonacci_sound[OF assms, of n] fibonacci_sound[OF assms, of 40] by auto
  have 7: "cache_ok (snd (decay score turnsOld c))"
    by (rule decay_sound[OF assms])
  have 8: "0 < turnsOld \<longrightarrow>
            fst (decay score turnsOld c) =
              max 0.01 (score * (1 - 1 / real_of_int (fib_seq (min (nat (turnsOld + 2)) 40))))"
    by (simp add: decay_sound(1)[OF assms] decay_spec_def)
  from 1 2 3 4 5 6 7 8 show ?thesis by blast
qed

text \<open>
  The theorem at the empty cache the module starts with: a score activated three turns
  ahead, which stays as it is, a score ten turns old, with \<open>fib 12 = 233\<close>, and the
  cap at index 45.
\<close>

theorem C3_decay_formula_witness:
  "cache_ok Map.empty
   \<and> decay 0.5 (-3) Map.empty = (0.5, Map.empty)
   \<and> fst (decay 1 10 Map.empty) = max 0.01 (1 * (1 - 1 / 233))
   \<and> fst (fibonacci 45 Map.empty) = 165580141
   \<and> fst (fibonacci 45 Map.empty) = fst (fibonacci 40 Map.empty)"
  using C3_decay_formula[OF cache_ok_empty, of "-3" "0.5" 45]
    C3_decay_formula[OF cache_ok_empty, of 10 1 12]
  by (simp add: cache_ok_empty decay_def fibonacci.simps)

text \<open>
  C4, as the spec states it, fails: one application of the decay to a score is smaller
  after one turn than after two, and a score below the floor is returned as it is when
  no turn has passed.
\<close>

theorem C4_decay_counterexample:
  "\<not> fst (decay 1 2 Map.empty) \<le> fst (decay 1 1 Map.empty)
   \<and> \<not> 0.01 \<le> fst (decay 0 0 Map.empty)"
  by (simp add: decay_def fibonacci.simps)

text \<open>
  C4, amended. From a sound cache and for a score of at least \<open>0.01\<close>, the decayed
  score never exceeds the score itself, which is \<open>decay(score, 0)\<close>; over the turns
  \<open>t \<ge> 1\<close> it is non-decreasing in \<open>t\<close>; and it is at least \<open>0.01\<close> whenever
  \<open>t > 0\<close> or the score itself is.
\<close>

theorem C4_decay_bounds:
  assumes "cache_ok c" "cache_ok c'"
  shows "(0.01 \<le> score \<longrightarrow> fst (decay score t c) \<le> score)
       \<and> fst (decay score 0 c) = score
       \<and> (0 \<le> score \<and> 0 < t \<and> t \<le> t' \<longrightarrow>
            fst (decay score t c) \<le> fst (decay score t' c'))
       \<and> (0 < t \<or> 0.01 \<le> score \<longrightarrow> 0.01 \<le> fst (decay score t c))"
proof -
  have 1: "0.01 \<le> score \<longrightarrow> fst (decay score t c) \<le> score"
    using decay_spec_le[of score t] by (simp add: decay_sound(1)[OF assms(1)])
  have 2: "fst (decay score 0 c) = score"
    by (simp add: decay_def)
  have 3: "0 \<le> score \<and> 0 < t \<and> t \<le> t' \<longrightarrow>
            fst (decay score t c) \<le> fst (decay score t' c')"
    using decay_spec_mono[of score t t']
    by (simp add: decay_sound(1)[OF assms(1)] decay_sound(1)[OF assms(2)])
  have 4: "0 < t \<or> 0.01 \<le> score \<longrightarrow> 0.01 \<le> fst (decay score t c)"
    using decay_spec_floor[of t score] by (simp add: decay_sound(1)[OF assms(1)])
  from 1 2 3 4 show ?thesis by blast
qed

text \<open>
  At the empty cache: the score 1 goes to \<open>2 / 3\<close> after one turn and to \<open>4 / 5\<close>
  after two.
\<close>

theorem C4_decay_bounds_witness:
  "cache_ok Map.empty
   \<and> fst (decay 1 1 Map.empty) \<le> 1
   \<and> fst (decay 1 1 Map.empty) \<le> fst (decay 1 2 Map.empty)
   \<and> 0.01 \<le> fst (decay 1 1 Map.empty)
   \<and> fst (decay 1 1 Map.empty) = 2 / 3
   \<and> fst (decay 1 2 Map.empty) = 4 / 5"
  using C4_decay_bounds[OF cache_ok_empty cache_ok_empty, of 1 1 2]
  by (simp add: cache_ok_empty decay_def fibonacci.simps)

section \<open>Properties of the concept-association graph\<close>

lemma mkAtom_sel [simp]:
  "uuid (mkAtom u t cs score lastTurn) = u"
  "atype (mkAtom u t cs score lastTurn) = t"
  "atext (mkAtom u t cs score lastTurn) = []"
  "concepts (mkAtom u t cs score lastTurn) = cs"
  "activationScore (mkAtom u t cs score lastTurn) = score"
  "lastActivatedTurn (mkAtom u t cs score lastTurn) = lastTurn"
  by (simp_all add: mkAtom_def)

subsection \<open>Association maps\<close>

lemma map_of_map_set: "map_of (map_set k v m) k' = (if k' = k then Some v else map_of m k')"
  by (induction m) auto

lemma getOrZero_map_set: "getOrZero (map_set k v m) k' = (if k' = k then v else getOrZero m k')"
  by (simp add: getOrZero_def map_of_map_set)

lemma keys_map_set:
  "map fst (map_set k v m) = (if k \<in> set (map fst m) then map fst m else map fst m @ [k])"
proof (induction m)
  case Nil
  then show ?case by simp
next
  case (Cons e m)
  obtain k' v' where e: "e = (k', v')" by (cases e)
  show ?case using Cons.IH by (cases "k' = k") (simp_all add: e)
qed

lemma getOrZero_distinct:
  "distinct (map fst m) \<Longrightarrow> (k, v) \<in> set m \<Longrightarrow> getOrZero m k = v"
  by (simp add: getOrZero_def)

subsection \<open>Composite keys\<close>

lemma compositeKey_inj: "compositeKey t c = compositeKey t c' \<longleftrightarrow> c = c'"
  by (simp add: compositeKey_def)

lemma split_colon_nonempty: "split_colon s \<noteq> []"
  by (induction s) (auto split: list.splits)

lemma join_colon_Cons: "ws \<noteq> [] \<Longrightarrow> join_colon (w # ws) = w @ '':'' @ join_colon ws"
  by (cases ws) auto

lemma join_colon_Cons_char: "join_colon ((ch # w) # ws) = ch # join_colon (w # ws)"
  by (cases ws) auto

lemma join_split_colon: "join_colon (split_colon s) = s"
proof (induction s)
  case Nil
  then show ?case by simp
next
  case (Cons ch s)
  obtain w ws where sp: "split_colon s = w # ws"
    using split_colon_nonempty[of s] by (cases "split_colon s") auto
  show ?case
  proof (cases "ch = CHR '':''")
    case True
    then show ?thesis using Cons.IH split_colon_nonempty[of s] by (simp add: join_colon_Cons)
  next
    case False
    then show ?thesis using Cons.IH by (simp add: sp join_colon_Cons_char)
  qed
qed

lemma split_colon_prefix:
  "CHR '':'' \<notin> set p \<Longrightarrow> split_colon (p @ CHR '':'' # c) = p # split_colon c"
  by (induction p) auto

text \<open>
  The concept part of a key built from a category and a concept is that concept, also
  when the concept itself holds a colon: no category name does.
\<close>

lemma followUpConceptOf_compositeKey: "followUpConceptOf (compositeKey t c) = c"
proof -
  have "CHR '':'' \<notin> set (typeName t)" by (cases t) simp_all
  then show ?thesis
    by (simp add: followUpConceptOf_def compositeKey_def split_colon_prefix join_split_colon)
qed

subsection \<open>Training\<close>

lemma getOrZero_trainTargets:
  "getOrZero (trainTargets ty tcs tr) k
     = getOrZero tr k + int (count_list (map (compositeKey ty) tcs) k)"
  by (induction tcs arbitrary: tr) (auto simp: getOrZero_map_set Let_def)

lemma edge_weight_upd:
  "edge_weight (g(k \<mapsto> tr)) sk tk = (if sk = k then getOrZero tr tk else edge_weight g sk tk)"
  by (simp add: edge_weight_def)

lemma edge_weight_trainSources:
  "edge_weight (trainSources sty tty scs tcs g) sk tk
     = edge_weight g sk tk
       + int (count_list (map (compositeKey sty) scs) sk)
         * int (count_list (map (compositeKey tty) tcs) tk)"
proof (induction scs arbitrary: g)
  case Nil
  then show ?case by simp
next
  case (Cons sc scs)
  let ?k = "compositeKey sty sc"
  let ?tr = "case g ?k of None \<Rightarrow> [] | Some tr \<Rightarrow> tr"
  have base: "getOrZero ?tr tk = edge_weight g ?k tk"
    by (simp add: edge_weight_def getOrZero_def split: option.splits)
  have step: "edge_weight (g(?k \<mapsto> trainTargets tty tcs ?tr)) sk tk
                = edge_weight g sk tk
                  + (if sk = ?k then int (count_list (map (compositeKey tty) tcs) tk) else 0)"
    unfolding edge_weight_upd getOrZero_trainTargets base by simp
  have "edge_weight (trainSources sty tty (sc # scs) tcs g) sk tk
          = edge_weight (g(?k \<mapsto> trainTargets tty tcs ?tr)) sk tk
            + int (count_list (map (compositeKey sty) scs) sk)
              * int (count_list (map (compositeKey tty) tcs) tk)"
    by (simp only: trainSources.simps Let_def Cons.IH)
  also have "\<dots> = edge_weight g sk tk
            + int (count_list (map (compositeKey sty) (sc # scs)) sk)
              * int (count_list (map (compositeKey tty) tcs) tk)"
    unfolding step by (simp add: algebra_simps)
  finally show ?case .
qed

lemma count_list_distinct: "distinct xs \<Longrightarrow> count_list xs x = (if x \<in> set xs then 1 else 0)"
  by (induction xs) auto

lemma count_keys:
  "distinct cs \<Longrightarrow>
     count_list (map (compositeKey t) cs) k = (if k \<in> compositeKey t ` set cs then 1 else 0)"
  by (simp add: count_list_distinct distinct_map inj_on_def compositeKey_inj)

lemma count_list_compositeKey:
  "count_list (map (compositeKey t) cs) (compositeKey t c) = count_list cs c"
  by (induction cs) (simp_all add: compositeKey_inj)

text \<open>
  C8, as the spec states it, fails in two ways. A source with the concept \<open>a\<close> twice
  and a target with the concept \<open>b\<close> twice take the edge between the two keys from 2 to
  6: four increments, not one. And on a service that is not loaded yet, a call with a
  source that has no concept installs the stored graph, which takes the weight of an
  edge from 0 to 2, or from 2 to 0 when the stored graph is the empty one.
\<close>

theorem C8_trainOnTransition_counterexample:
  "conceptsOrExtract noExtraction sourceTwice = [''a'', ''a'']
   \<and> conceptsOrExtract noExtraction targetTwice = [''b'', ''b'']
   \<and> edge_weight (graph trainLoaded) ''user_message:a'' ''model_response:b'' = 2
   \<and> edge_weight
        (graph (trainOnTransition (Inl DbFailure) noExtraction trainLoaded sourceTwice targetTwice))
        ''user_message:a'' ''model_response:b'' = 6
   \<and> conceptsOrExtract noExtraction sourceEmpty = []
   \<and> edge_weight (graph trainUnloaded) ''user_message:a'' ''model_response:b'' = 0
   \<and> edge_weight
        (graph (trainOnTransition (Inr (Some trainGraph)) noExtraction trainUnloaded
                  sourceEmpty targetTwice))
        ''user_message:a'' ''model_response:b'' = 2
   \<and> edge_weight (graph trainStale) ''user_message:a'' ''model_response:b'' = 2
   \<and> edge_weight
        (graph (trainOnTransition (Inr (Some Map.empty)) noExtraction trainStale
                  sourceEmpty targetTwice))
        ''user_message:a'' ''model_response:b'' = 0"
  by (simp add: trainOnTransition_def conceptsOrExtract_def sourceTwice_def targetTwice_def
      sourceEmpty_def trainLoaded_def trainUnloaded_def trainStale_def loadGraph_def
      trainGraph_def compositeKey_def edge_weight_def getOrZero_def Let_def)

text \<open>
  C8, amended. On a loaded service: when the source or the target has no concepts (the
  \<open>concepts\<close> field, or what extraction gives when the field is missing),
  \<open>trainOnTransition\<close> returns the service as it is, and in every case the weight of
  the edge from \<open>sk\<close> to \<open>tk\<close> grows by the number of times \<open>sk\<close> is a source key
  times the number of times \<open>tk\<close> is a target key. That is one increment for every
  pair of an occurrence of a source concept and an occurrence of a target concept: the
  edge between the keys of the concepts \<open>a\<close> and \<open>b\<close> grows by the occurrences of
  \<open>a\<close> times the occurrences of \<open>b\<close>, an edge with another source or target key does
  not change, and for concept lists without repetition the growth is exactly 1 on the
  edges between a source key and a target key. On a service that is not loaded yet all
  this holds with the service \<open>loadGraph\<close> leaves, \<open>s0\<close>, in place of the service
  before the call.
\<close>

theorem C8_trainOnTransition:
  "let sourceConcepts = conceptsOrExtract extractConcepts sourceAtom;
       targetConcepts = conceptsOrExtract extractConcepts targetAtom;
       sourceKeys = map (compositeKey (atype sourceAtom)) sourceConcepts;
       targetKeys = map (compositeKey (atype targetAtom)) targetConcepts;
       s0 = (if isLoaded s then s else loadGraph stored s);
       s' = trainOnTransition stored extractConcepts s sourceAtom targetAtom
   in (isLoaded s \<longrightarrow>
         (sourceConcepts = [] \<or> targetConcepts = [] \<longrightarrow> s' = s)
         \<and> (\<forall>sk tk. edge_weight (graph s') sk tk
                  = edge_weight (graph s) sk tk
                    + int (count_list sourceKeys sk) * int (count_list targetKeys tk)))
    \<and> (sourceConcepts = [] \<or> targetConcepts = [] \<longrightarrow> s' = s0)
    \<and> (\<forall>sk tk. edge_weight (graph s') sk tk
                  = edge_weight (graph s0) sk tk
                    + int (count_list sourceKeys sk) * int (count_list targetKeys tk))
    \<and> (\<forall>a b. edge_weight (graph s') (compositeKey (atype sourceAtom) a)
                                       (compositeKey (atype targetAtom) b)
                = edge_weight (graph s0) (compositeKey (atype sourceAtom) a)
                                         (compositeKey (atype targetAtom) b)
                  + int (count_list sourceConcepts a) * int (count_list targetConcepts b))
    \<and> (\<forall>sk tk. sk \<notin> set sourceKeys \<or> tk \<notin> set targetKeys \<longrightarrow>
                  edge_weight (graph s') sk tk = edge_weight (graph s0) sk tk)
    \<and> (distinct sourceConcepts \<and> distinct targetConcepts \<longrightarrow>
        (\<forall>sk tk. edge_weight (graph s') sk tk
                  = edge_weight (graph s0) sk tk
                    + (if sk \<in> set sourceKeys \<and> tk \<in> set targetKeys then 1 else 0)))"
proof -
  define sc where "sc = conceptsOrExtract extractConcepts sourceAtom"
  define tc where "tc = conceptsOrExtract extractConcepts targetAtom"
  define s0 where "s0 = (if isLoaded s then s else loadGraph stored s)"
  define s' where "s' = trainOnTransition stored extractConcepts s sourceAtom targetAtom"
  let ?sks = "map (compositeKey (atype sourceAtom)) sc"
  let ?tks = "map (compositeKey (atype targetAtom)) tc"
  have s': "s' = (if sc = [] \<or> tc = [] then s0
                  else s0\<lparr>graph := trainSources (atype sourceAtom) (atype targetAtom) sc tc (graph s0)\<rparr>)"
    by (simp add: s'_def trainOnTransition_def Let_def sc_def tc_def s0_def)
  have 1: "sc = [] \<or> tc = [] \<longrightarrow> s' = s0"
    by (simp add: s')
  have 2: "edge_weight (graph s') sk tk
             = edge_weight (graph s0) sk tk
               + int (count_list ?sks sk) * int (count_list ?tks tk)" for sk tk
  proof (cases "sc = [] \<or> tc = []")
    case True
    then show ?thesis by (auto simp: s')
  next
    case False
    then show ?thesis by (simp add: s' edge_weight_trainSources)
  qed
  have 3: "edge_weight (graph s') sk tk
             = edge_weight (graph s0) sk tk
               + (if sk \<in> set ?sks \<and> tk \<in> set ?tks then 1 else 0)"
    if "distinct sc" "distinct tc" for sk tk
    unfolding 2 count_keys[OF that(1)] count_keys[OF that(2)] by simp
  have 4: "edge_weight (graph s') (compositeKey (atype sourceAtom) a)
                                  (compositeKey (atype targetAtom) b)
             = edge_weight (graph s0) (compositeKey (atype sourceAtom) a)
                                      (compositeKey (atype targetAtom) b)
               + int (count_list sc a) * int (count_list tc b)" for a b
    unfolding 2 count_list_compositeKey by (rule refl)
  have 5: "edge_weight (graph s') sk tk = edge_weight (graph s0) sk tk"
    if "sk \<notin> set ?sks \<or> tk \<notin> set ?tks" for sk tk
    using that unfolding 2 by (auto simp: count_list_0_iff)
  have 0: "isLoaded s \<longrightarrow> s0 = s" by (simp add: s0_def)
  have 6: "isLoaded s \<longrightarrow>
         (sc = [] \<or> tc = [] \<longrightarrow> s' = s)
         \<and> (\<forall>sk tk. edge_weight (graph s') sk tk
                  = edge_weight (graph s) sk tk
                    + int (count_list ?sks sk) * int (count_list ?tks tk))"
    using 0 1 2 by auto
  show ?thesis
    unfolding Let_def sc_def[symmetric] tc_def[symmetric] s0_def[symmetric] s'_def[symmetric]
    using 1 2 3 4 5 6 by blast
qed

text \<open>
  Training on a loaded graph with one edge of weight 2: the edge from \<open>a\<close> to \<open>b\<close>
  goes to 3, the new edge from \<open>a\<close> to \<open>c\<close> to 1, other edges stay at 0; a source
  without concepts leaves the service as it is; and with both concepts twice the edge
  from \<open>a\<close> to \<open>b\<close> grows by 2 times 2.
\<close>

theorem C8_trainOnTransition_witness:
  "isLoaded trainLoaded
   \<and> edge_weight (graph trainLoaded) ''user_message:a'' ''model_response:b'' = 2
   \<and> edge_weight
        (graph (trainOnTransition (Inl DbFailure) noExtraction trainLoaded
                  (mkAtom ''u1'' user_message (Some [''a'']) None None)
                  (mkAtom ''u2'' model_response (Some [''b'', ''c'']) None None)))
        ''user_message:a'' ''model_response:b'' = 3
   \<and> edge_weight
        (graph (trainOnTransition (Inl DbFailure) noExtraction trainLoaded
                  (mkAtom ''u1'' user_message (Some [''a'']) None None)
                  (mkAtom ''u2'' model_response (Some [''b'', ''c'']) None None)))
        ''user_message:a'' ''model_response:c'' = 1
   \<and> edge_weight
        (graph (trainOnTransition (Inl DbFailure) noExtraction trainLoaded
                  (mkAtom ''u1'' user_message (Some [''a'']) None None)
                  (mkAtom ''u2'' model_response (Some [''b'', ''c'']) None None)))
        ''user_message:b'' ''model_response:b'' = 0
   \<and> trainOnTransition (Inl DbFailure) noExtraction trainLoaded sourceEmpty targetTwice
       = trainLoaded
   \<and> edge_weight
        (graph (trainOnTransition (Inl DbFailure) noExtraction trainLoaded sourceTwice targetTwice))
        ''user_message:a'' ''model_response:b''
       = 2 + int (count_list [''a'', ''a''] ''a'') * int (count_list [''b'', ''b''] ''b'')"
  using C8_trainOnTransition[of noExtraction "mkAtom ''u1'' user_message (Some [''a'']) None None"
      "mkAtom ''u2'' model_response (Some [''b'', ''c'']) None None" trainLoaded "Inl DbFailure"]
    C8_trainOnTransition[of noExtraction sourceEmpty targetTwice trainLoaded "Inl DbFailure"]
    C8_trainOnTransition[of noExtraction sourceTwice targetTwice trainLoaded "Inl DbFailure"]
  by (simp add: Let_def conceptsOrExtract_def compositeKey_def trainGraph_def edge_weight_def
      getOrZero_def trainLoaded_def sourceEmpty_def sourceTwice_def targetTwice_def)

subsection \<open>Follow-up concepts\<close>

lemma set_firstSeen [simp]: "set (firstSeen xs) = set xs"
  by (induction xs) auto

lemma distinct_firstSeen [simp]: "distinct (firstSeen xs)"
  by (induction xs) (auto simp: distinct_removeAll)

lemma filter_removeAll_absorb: "\<not> P x \<Longrightarrow> filter P (removeAll x xs) = filter P xs"
  by (induction xs) auto

lemma filter_removeAll_conj: "filter (\<lambda>y. P y \<and> y \<noteq> x) xs = filter P (removeAll x xs)"
  by (induction xs) auto

lemma keys_accumulate:
  "map fst (accumulate es m)
     = map fst m @ filter (\<lambda>c. c \<notin> fst ` set m) (firstSeen (map fst es))"
proof (induction es arbitrary: m)
  case Nil
  then show ?case by simp
next
  case (Cons e es)
  obtain c w where e: "e = (c, w)" by (cases e)
  let ?m' = "map_set c (getOrZero m c + w) m"
  show ?case
  proof (cases "c \<in> fst ` set m")
    case True
    then have k: "map fst ?m' = map fst m" by (simp add: keys_map_set)
    have "set (map fst ?m') = set (map fst m)" by (simp only: k)
    then have s: "fst ` set ?m' = fst ` set m" by simp
    show ?thesis
      using True by (simp add: e Cons.IH k s filter_removeAll_absorb)
  next
    case False
    then have k: "map fst ?m' = map fst m @ [c]" by (simp add: keys_map_set)
    have "set (map fst ?m') = set (map fst m @ [c])" by (simp only: k)
    then have s: "fst ` set ?m' = insert c (fst ` set m)" by simp
    have "filter (\<lambda>x. x \<notin> insert c (fst ` set m)) (firstSeen (map fst es))
            = filter (\<lambda>x. x \<notin> fst ` set m) (removeAll c (firstSeen (map fst es)))"
      using filter_removeAll_conj[of "\<lambda>x. x \<notin> fst ` set m" c] by (simp add: conj_commute)
    then show ?thesis
      using False by (simp add: e Cons.IH k s)
  qed
qed

lemma value_accumulate:
  "getOrZero (accumulate es m) c
     = getOrZero m c + sum_list (map snd (filter (\<lambda>e. fst e = c) es))"
  by (induction es arbitrary: m) (auto simp: getOrZero_map_set)

text \<open>
  Starting from the empty map, the association map holds the concepts met, in
  first-met order, each with the sum of the weights met for it.
\<close>

lemma accumulate_empty:
  "accumulate es []
     = map (\<lambda>c. (c, sum_list (map snd (filter (\<lambda>e. fst e = c) es)))) (firstSeen (map fst es))"
proof -
  let ?xs = "accumulate es []"
  let ?agg = "\<lambda>c. sum_list (map snd (filter (\<lambda>e. fst e = c) es))"
  have keys: "map fst ?xs = firstSeen (map fst es)"
    using keys_accumulate[of es "[]"] by simp
  then have d: "distinct (map fst ?xs)" by simp
  have "map (\<lambda>e. (fst e, ?agg (fst e))) ?xs = ?xs"
  proof (rule map_idI)
    fix e assume "e \<in> set ?xs"
    then have "getOrZero ?xs (fst e) = snd e"
      using getOrZero_distinct[OF d, of "fst e" "snd e"] by simp
    then show "(fst e, ?agg (fst e)) = e"
      using value_accumulate[of es "[]" "fst e"] by (simp add: getOrZero_def prod_eq_iff)
  qed
  then have "?xs = map (\<lambda>c. (c, ?agg c)) (map fst ?xs)"
    by (simp add: comp_def)
  then show ?thesis unfolding keys .
qed

lemma accumulate_append: "accumulate (es @ es') m = accumulate es' (accumulate es m)"
  by (induction es arbitrary: m) auto

lemma addTransitions_accumulate: "addTransitions tr m = accumulate (transitionEdges tr) m"
  by (induction tr arbitrary: m) (auto simp: transitionEdges_def Let_def)

lemma set_set_add [simp]: "set (set_add x xs) = insert x (set xs)"
  by (auto simp: set_add_def)

lemma followConcepts_fst:
  "fst (followConcepts g t cs (m, orig))
     = accumulate (concat (map (\<lambda>c. keyEdges g (compositeKey t c)) cs)) m"
proof (induction cs arbitrary: m orig)
  case Nil
  then show ?case by simp
next
  case (Cons c cs)
  show ?case
    by (cases "g (compositeKey t c)")
       (simp_all add: Cons.IH Let_def keyEdges_def accumulate_append addTransitions_accumulate)
qed

lemma followConcepts_snd:
  "set (snd (followConcepts g t cs (m, orig))) = set orig \<union> set cs"
  by (induction cs arbitrary: m orig) (simp_all add: Let_def)

lemma followAtoms_fst:
  "fst (followAtoms g atoms st) = accumulate (followUpEdges g atoms) (fst st)"
proof (induction atoms arbitrary: st)
  case Nil
  then show ?case by (simp add: followUpEdges_def)
next
  case (Cons a atoms)
  obtain m orig where st: "st = (m, orig)" by (cases st)
  have "fst (followAtoms g (a # atoms) st)
          = accumulate (followUpEdges g atoms)
              (accumulate (concat (map (\<lambda>c. keyEdges g (compositeKey (atype a) c))
                 (conceptsOrEmpty a))) m)"
    by (simp add: Cons.IH st followConcepts_fst)
  then show ?case
    by (simp add: st followUpEdges_def accumulate_append)
qed

lemma followAtoms_snd:
  "set (snd (followAtoms g atoms st)) = set (snd st) \<union> set (concat (map conceptsOrEmpty atoms))"
proof (induction atoms arbitrary: st)
  case Nil
  then show ?case by simp
next
  case (Cons a atoms)
  obtain m orig where st: "st = (m, orig)" by (cases st)
  show ?case
    by (simp add: Cons.IH st followConcepts_snd Un_assoc)
qed

lemma deleteOriginals_filter:
  "deleteOriginals orig m = filter (\<lambda>e. fst e \<notin> set orig) m"
  by (induction orig arbitrary: m) (auto simp: map_delete_def conj_commute)

lemma insort_key_map: "insort_key f (g x) (map g xs) = map g (insort_key (\<lambda>a. f (g a)) x xs)"
  by (induction xs) auto

lemma sort_key_map: "sort_key f (map g xs) = map g (sort_key (\<lambda>a. f (g a)) xs)"
  by (induction xs) (auto simp: insort_key_map)

lemma sorted_wrt_take: "sorted_wrt R xs \<Longrightarrow> sorted_wrt R (take n xs)"
  using sorted_wrt_append[of R "take n xs" "drop n xs"] by simp

lemma slice0_take: "\<exists>n. slice0 k xs = take n xs"
  by (auto simp: slice0_def)

lemma length_slice0: "0 \<le> k \<Longrightarrow> length (slice0 k xs) \<le> nat k"
  by (simp add: slice0_def)

lemma slice0_map: "slice0 k (map f xs) = map f (slice0 k xs)"
  by (simp add: slice0_def take_map)

text \<open>The list the operation returns, in terms of the accumulated weights.\<close>

lemma getFollowUpConcepts_char:
  "fst (getFollowUpConcepts stored s atoms K)
     = slice0 K (sort_key (\<lambda>c. - accumulatedWeight (graph (if isLoaded s then s else loadGraph stored s)) atoms c)
         (candidates (graph (if isLoaded s then s else loadGraph stored s)) atoms))"
proof -
  define g where "g = graph (if isLoaded s then s else loadGraph stored s)"
  define st where "st = followAtoms g atoms ([], [])"
  let ?w = "accumulatedWeight g atoms"
  have assoc: "fst st = map (\<lambda>c. (c, ?w c)) (firstSeen (map fst (followUpEdges g atoms)))"
    by (simp add: st_def followAtoms_fst accumulate_empty accumulatedWeight_def)
  have orig: "set (snd st) = set (concat (map conceptsOrEmpty atoms))"
    by (simp add: st_def followAtoms_snd)
  have del: "deleteOriginals (snd st) (fst st) = map (\<lambda>c. (c, ?w c)) (candidates g atoms)"
    by (simp add: deleteOriginals_filter assoc orig candidates_def filter_map comp_def)
  have "fst (getFollowUpConcepts stored s atoms K)
          = map fst (slice0 K (sort_key (\<lambda>e. - snd e) (deleteOriginals (snd st) (fst st))))"
    by (simp add: getFollowUpConcepts_def Let_def split_beta st_def g_def if_distrib[of graph]
        cong: if_cong)
  also have "\<dots> = slice0 K (sort_key (\<lambda>c. - ?w c) (candidates g atoms))"
    by (simp add: del sort_key_map slice0_map[symmetric] comp_def)
  finally show ?thesis unfolding g_def .
qed

text \<open>
  The edges met are the outgoing edges of the source keys, key by key; when no source
  key occurs twice, the accumulated weight is the weight over the union of the keys.
\<close>

lemma followUpEdges_sourceKeys:
  "followUpEdges g atoms = concat (map (keyEdges g) (sourceKeys atoms))"
  by (induction atoms) (simp_all add: followUpEdges_def sourceKeys_def comp_def)

lemma accumulatedWeight_unionWeight:
  "distinct (sourceKeys atoms) \<Longrightarrow> accumulatedWeight g atoms c = unionWeight g atoms c"
  by (simp add: accumulatedWeight_def unionWeight_def followUpEdges_sourceKeys distinct_remdups_id)

text \<open>
  The accumulated weight is the sum over the union of the source keys with every key
  weighted by the number of its occurrences.
\<close>

lemma sum_list_concat_filter:
  "sum_list (map snd (filter P (concat (map h ks))))
     = sum_list (map (\<lambda>k. sum_list (map snd (filter P (h k)))) ks)"
  by (induction ks) simp_all

lemma sum_list_count_set:
  fixes f :: "'a \<Rightarrow> int"
  shows "sum_list (map f xs) = (\<Sum>x\<in>set xs. int (count_list xs x) * f x)"
proof (induction xs)
  case Nil
  then show ?case by simp
next
  case (Cons x xs)
  show ?case
  proof (cases "x \<in> set xs")
    case True
    have "sum_list (map f (x # xs)) = f x + (\<Sum>y\<in>set xs. int (count_list xs y) * f y)"
      by (simp add: Cons.IH)
    also have "(\<Sum>y\<in>set xs. int (count_list xs y) * f y)
        = int (count_list xs x) * f x + (\<Sum>y\<in>set xs - {x}. int (count_list xs y) * f y)"
      using True by (simp add: sum.remove)
    also have "(\<Sum>y\<in>set xs - {x}. int (count_list xs y) * f y)
        = (\<Sum>y\<in>set xs - {x}. int (count_list (x # xs) y) * f y)"
      by (intro sum.cong) auto
    also have "f x + (int (count_list xs x) * f x
                       + (\<Sum>y\<in>set xs - {x}. int (count_list (x # xs) y) * f y))
        = int (count_list (x # xs) x) * f x
          + (\<Sum>y\<in>set xs - {x}. int (count_list (x # xs) y) * f y)"
      by (simp add: algebra_simps)
    also have "\<dots> = (\<Sum>y\<in>set (x # xs). int (count_list (x # xs) y) * f y)"
      using True by (simp add: sum.remove[of "set xs" x] insert_absorb del: count_list.simps)
    finally show ?thesis .
  next
    case False
    then have "(\<Sum>y\<in>set xs. int (count_list (x # xs) y) * f y)
        = (\<Sum>y\<in>set xs. int (count_list xs y) * f y)"
      by (intro sum.cong) auto
    then show ?thesis using False by (simp add: Cons.IH)
  qed
qed

lemma sum_list_count:
  fixes f :: "'a \<Rightarrow> int"
  shows "sum_list (map f xs) = sum_list (map (\<lambda>k. int (count_list xs k) * f k) (remdups xs))"
  by (simp add: sum_list_count_set[of f xs] sum_list_distinct_conv_sum_set)

lemma accumulatedWeight_occurrenceWeight:
  "accumulatedWeight g atoms c = occurrenceWeight g atoms c"
  unfolding accumulatedWeight_def occurrenceWeight_def followUpEdges_sourceKeys
    sum_list_concat_filter
  by (rule sum_list_count)

text \<open>
  C7, as the spec states it, fails. Of three user messages one has the concept \<open>b\<close>
  and two have the concept \<open>a\<close>; the graph has an edge of weight 3 from \<open>b\<close> to
  \<open>y\<close> and one of weight 2 from \<open>a\<close> to \<open>x\<close>. Aggregated over the union of the
  source keys \<open>y\<close> weighs 3 and \<open>x\<close> weighs 2, but the answer puts \<open>x\<close> before
  \<open>y\<close>, and for \<open>K = 1\<close> it is \<open>x\<close> alone: the key of \<open>a\<close> is walked twice, which
  gives \<open>x\<close> the weight 4.
\<close>

theorem C7_getFollowUpConcepts_counterexample:
  "fst (getFollowUpConcepts (Inl DbFailure) unionService unionAtoms 2) = [''x'', ''y'']
   \<and> fst (getFollowUpConcepts (Inl DbFailure) unionService unionAtoms 1) = [''x'']
   \<and> unionWeight (graph unionService) unionAtoms ''x'' = 2
   \<and> unionWeight (graph unionService) unionAtoms ''y'' = 3
   \<and> sourceKeys unionAtoms = [''user_message:b'', ''user_message:a'', ''user_message:a'']
   \<and> accumulatedWeight (graph unionService) unionAtoms ''x'' = 4
   \<and> accumulatedWeight (graph unionService) unionAtoms ''y'' = 3"
  by (simp add: getFollowUpConcepts_def unionService_def unionAtoms_def unionWeight_def
      accumulatedWeight_def followUpEdges_def sourceKeys_def keyEdges_def transitionEdges_def
      conceptsOrEmpty_def compositeKey_def followUpConceptOf_def getOrZero_def
      set_add_def map_delete_def Let_def slice0_def)

text \<open>
  C7, amended. Let \<open>g\<close> be the loaded graph and \<open>w\<close> the weight accumulated for a
  target concept: the sum of the weights of all edges met for it, whatever the target
  category, an edge counted once for every occurrence of its source key among the
  concepts of the input atoms; that is the sum over the union of the source keys of
  the occurrences of the key times the weights of its edges to the concept. The list \<open>getFollowUpConcepts\<close> returns has at most
  \<open>K\<close> entries for \<open>K \<ge> 0\<close>, holds no concept of any input atom, is ordered by
  \<open>w\<close>, largest first, and among the concepts of one weight holds the first ones met,
  in the order met. It is the candidates sorted stably by weight and cut by
  \<open>slice(0, K)\<close>. When no source key occurs twice, \<open>w\<close> is the weight aggregated
  over the union of the source keys.
\<close>

theorem C7_getFollowUpConcepts:
  "let g = graph (if isLoaded s then s else loadGraph stored s);
       w = accumulatedWeight g atoms;
       rs = fst (getFollowUpConcepts stored s atoms K)
   in (0 \<le> K \<longrightarrow> int (length rs) \<le> K)
    \<and> (\<forall>a \<in> set atoms. \<forall>cs. concepts a = Some cs \<longrightarrow> set cs \<inter> set rs = {})
    \<and> sorted_wrt (\<lambda>c d. w d \<le> w c) rs
    \<and> (\<forall>v. prefix (filter (\<lambda>c. w c = v) rs) (filter (\<lambda>c. w c = v) (candidates g atoms)))
    \<and> distinct rs
    \<and> rs = slice0 K (sort_key (\<lambda>c. - w c) (candidates g atoms))
    \<and> (\<forall>c. w c = occurrenceWeight g atoms c)
    \<and> (distinct (sourceKeys atoms) \<longrightarrow> (\<forall>c. w c = unionWeight g atoms c))"
proof -
  define g where "g = graph (if isLoaded s then s else loadGraph stored s)"
  define w where "w = accumulatedWeight g atoms"
  define rs where "rs = fst (getFollowUpConcepts stored s atoms K)"
  let ?sorted = "sort_key (\<lambda>c. - w c) (candidates g atoms)"
  have rs: "rs = slice0 K ?sorted"
    unfolding rs_def w_def g_def by (rule getFollowUpConcepts_char)
  obtain n where n: "rs = take n ?sorted"
    using slice0_take[of K ?sorted] rs by auto
  have 1: "0 \<le> K \<longrightarrow> int (length rs) \<le> K"
    using length_slice0[of K ?sorted] by (auto simp: rs)
  have sub: "set rs \<subseteq> set (candidates g atoms)"
    using set_take_subset[of n ?sorted] by (simp add: n)
  have 2: "\<forall>a \<in> set atoms. \<forall>cs. concepts a = Some cs \<longrightarrow> set cs \<inter> set rs = {}"
  proof (intro ballI allI impI)
    fix a cs assume a: "a \<in> set atoms" and cs: "concepts a = Some cs"
    have "set cs \<subseteq> set (concat (map conceptsOrEmpty atoms))"
      using a cs by (auto simp: conceptsOrEmpty_def intro!: bexI[of _ a])
    moreover have "set (candidates g atoms) \<inter> set (concat (map conceptsOrEmpty atoms)) = {}"
      by (auto simp: candidates_def)
    ultimately show "set cs \<inter> set rs = {}" using sub by blast
  qed
  have "sorted (map (\<lambda>c. - w c) ?sorted)" by (rule sorted_sort_key)
  then have "sorted_wrt (\<lambda>c d. w d \<le> w c) ?sorted"
    by (simp add: sorted_wrt_map)
  then have 3: "sorted_wrt (\<lambda>c d. w d \<le> w c) rs"
    unfolding n by (rule sorted_wrt_take)
  have 4: "\<forall>v. prefix (filter (\<lambda>c. w c = v) rs) (filter (\<lambda>c. w c = v) (candidates g atoms))"
  proof
    fix v
    have "prefix (filter (\<lambda>c. - w c = - v) rs) (filter (\<lambda>c. - w c = - v) ?sorted)"
      unfolding n by (rule filter_mono_prefix) (rule take_is_prefix)
    then show "prefix (filter (\<lambda>c. w c = v) rs) (filter (\<lambda>c. w c = v) (candidates g atoms))"
      unfolding sort_key_stable by simp
  qed
  have "distinct (candidates g atoms)" by (simp add: candidates_def)
  then have 5: "distinct rs" by (simp add: n)
  have 6: "distinct (sourceKeys atoms) \<longrightarrow> (\<forall>c. w c = unionWeight g atoms c)"
    by (simp add: w_def accumulatedWeight_unionWeight)
  have 7: "\<forall>c. w c = occurrenceWeight g atoms c"
    by (simp add: w_def accumulatedWeight_occurrenceWeight)
  show ?thesis
    unfolding Let_def g_def[symmetric] w_def[symmetric] rs_def[symmetric]
    using 1 2 3 4 5 6 7 rs by blast
qed

lemma followExample_candidates: "candidates followGraph followAtomsExample = [''x'', ''y'', ''z'']"
  by (simp add: candidates_def followGraph_def followAtomsExample_def compositeKey_def
      followUpEdges_def keyEdges_def transitionEdges_def conceptsOrEmpty_def followUpConceptOf_def)

lemma followExample_weights:
  "accumulatedWeight followGraph followAtomsExample ''x'' = 3"
  "accumulatedWeight followGraph followAtomsExample ''y'' = 3"
  "accumulatedWeight followGraph followAtomsExample ''z'' = 4"
  by (simp_all add: accumulatedWeight_def followGraph_def followAtomsExample_def compositeKey_def
      followUpEdges_def keyEdges_def transitionEdges_def conceptsOrEmpty_def followUpConceptOf_def)

lemma followExample_unionWeights:
  "unionWeight followGraph followAtomsExample ''x'' = 3"
  "unionWeight followGraph followAtomsExample ''y'' = 3"
  "unionWeight followGraph followAtomsExample ''z'' = 4"
  by (simp_all add: unionWeight_def sourceKeys_def followGraph_def followAtomsExample_def
      compositeKey_def keyEdges_def transitionEdges_def conceptsOrEmpty_def followUpConceptOf_def)

text \<open>
  On the example graph the candidates are \<open>x\<close>, \<open>y\<close>, \<open>z\<close> in first-met order, with
  weights 3, 3 and 4: the top two are \<open>z\<close>, then \<open>x\<close>, the first met of the two tied
  concepts; \<open>a\<close>, the heaviest target, is a concept of the input atom and is left out.
  The two source keys differ, and the weights are those over their union.
\<close>

theorem C7_getFollowUpConcepts_witness:
  "fst (getFollowUpConcepts (Inl DbFailure) \<lparr>graph = followGraph, isLoaded = True\<rparr>
          followAtomsExample 2) = [''z'', ''x'']
   \<and> candidates followGraph followAtomsExample = [''x'', ''y'', ''z'']
   \<and> map (accumulatedWeight followGraph followAtomsExample) [''x'', ''y'', ''z''] = [3, 3, 4]
   \<and> concepts (hd followAtomsExample) = Some [''a'', ''b'']
   \<and> set [''a'', ''b'']
       \<inter> set (fst (getFollowUpConcepts (Inl DbFailure) \<lparr>graph = followGraph, isLoaded = True\<rparr>
                     followAtomsExample 2)) = {}
   \<and> distinct (sourceKeys followAtomsExample)
   \<and> map (unionWeight followGraph followAtomsExample) [''x'', ''y'', ''z''] = [3, 3, 4]
   \<and> map (occurrenceWeight followGraph followAtomsExample) [''x'', ''y'', ''z''] = [3, 3, 4]"
proof -
  note t = C7_getFollowUpConcepts[of "\<lparr>graph = followGraph, isLoaded = True\<rparr>"
      "Inl DbFailure" followAtomsExample 2, unfolded Let_def]
  note top = t[THEN conjunct2, THEN conjunct2, THEN conjunct2, THEN conjunct2, THEN conjunct2,
      THEN conjunct1]
  note occ = t[THEN conjunct2, THEN conjunct2, THEN conjunct2, THEN conjunct2, THEN conjunct2,
      THEN conjunct2, THEN conjunct1, THEN spec]
  have rs: "fst (getFollowUpConcepts (Inl DbFailure) \<lparr>graph = followGraph, isLoaded = True\<rparr>
          followAtomsExample 2) = [''z'', ''x'']"
    using top by (simp add: followExample_candidates followExample_weights slice0_def)
  have ow: "map (occurrenceWeight followGraph followAtomsExample) [''x'', ''y'', ''z''] = [3, 3, 4]"
    using occ[of "''x''"] occ[of "''y''"] occ[of "''z''"] by (simp add: followExample_weights)
  have d: "distinct (sourceKeys followAtomsExample)"
    by (simp add: followAtomsExample_def sourceKeys_def conceptsOrEmpty_def compositeKey_def
        mkAtom_def)
  have cs: "concepts (hd followAtomsExample) = Some [''a'', ''b'']"
    by (simp add: followAtomsExample_def mkAtom_def)
  show ?thesis
    unfolding rs ow
    using d cs
    by (simp add: followExample_candidates followExample_weights followExample_unionWeights)
qed

section \<open>Properties of recall\<close>

lemma decayedCopy_sel [simp]:
  "uuid (decayedCopy t a) = uuid a"
  "atype (decayedCopy t a) = atype a"
  "concepts (decayedCopy t a) = concepts a"
  "activationScore (decayedCopy t a) = Some (decayedScore t a)"
  by (simp_all add: decayedCopy_def)

lemma decayAtom_shape: "\<exists>d. fst (decayAtom t a c) = a\<lparr>activationScore := Some d\<rparr>"
  unfolding decayAtom_def split_beta Let_def fst_conv by (rule exI) (rule refl)

lemma decayLtm_uuid: "map uuid (fst (decayLtm t atoms c)) = map uuid atoms"
proof (induction atoms arbitrary: c)
  case Nil
  then show ?case by simp
next
  case (Cons a atoms)
  obtain d where "fst (decayAtom t a c) = a\<lparr>activationScore := Some d\<rparr>"
    using decayAtom_shape by blast
  then show ?case by (simp add: split_beta Let_def Cons.IH)
qed

lemma ltm_take: "ltmOf memory = take (length memory - 15) memory"
  by (simp add: ltmOf_def slice0_def STM_CAPACITY_def nat_diff_distrib')

lemma stm_drop: "stmOf memory = drop (length memory - 15) memory"
  by (simp add: stmOf_def sliceFrom_def STM_CAPACITY_def nat_diff_distrib')



lemma axiomResonance_formula:
  "axiomResonance stmConcepts a
     = 2 * real (length (filter (\<lambda>c. c \<in> set stmConcepts) (conceptsOrEmpty a)))"
  by (cases "concepts a"; cases "stmConcepts = []")
     (simp_all add: axiomResonance_def conceptsOrEmpty_def)


lemma scoreMemory_fst [simp]: "fst (scoreMemory E F a) = a"
  by (simp add: scoreMemory_def Let_def)

lemma scoreAxiom_fst [simp]: "fst (scoreAxiom stmC a) = a"
  by (simp add: scoreAxiom_def Let_def)


lemma scoreAxiom_snd:
  "snd (scoreAxiom stmC a)
     = axiomResonance stmC a * (case activationScore a of None \<Rightarrow> 1 | Some x \<Rightarrow> x)"
  by (simp add: scoreAxiom_def Let_def)

lemma recallScoring_unfold:
  "recallScoring stored s c memory t =
     (ltmOf memory,
      map (scoreMemory (expandedOf stored s memory) (followUpsOf stored s memory))
        (filter (\<lambda>a. atype a \<noteq> axiom) (fst (decayLtm t (ltmOf memory) c))),
      map (scoreAxiom (stmConceptsOf memory))
        (filter (\<lambda>a. atype a = axiom) (fst (decayLtm t (ltmOf memory) c))),
      snd (decayLtm t (ltmOf memory) c),
      snd (getFollowUpConcepts stored s (stmOf memory) 10))"
  unfolding recallScoring_def Let_def split_beta ltmOf_def stmOf_def stmConceptsOf_def
      followUpsOf_def expandedOf_def by (rule refl)

lemma recall_unfold:
  assumes "15 < length memory"
  shows "fst (recall stored s c memory t) =
     \<lparr>memories = topAtoms LTM_RECALL_K (ltmOf memory)
         (map (scoreMemory (expandedOf stored s memory) (followUpsOf stored s memory))
            (filter (\<lambda>a. atype a \<noteq> axiom) (fst (decayLtm t (ltmOf memory) c)))),
      axioms = topAtoms AXIOM_RECALL_K (ltmOf memory)
         (map (scoreAxiom (stmConceptsOf memory))
            (filter (\<lambda>a. atype a = axiom) (fst (decayLtm t (ltmOf memory) c))))\<rparr>"
proof -
  have "\<not> int (length memory) \<le> STM_CAPACITY" using assms by (simp add: STM_CAPACITY_def)
  then show ?thesis
    unfolding recall_def recallScoring_unfold Let_def split_conv by (simp only: if_False fst_conv)
qed

lemma recall_short:
  assumes "\<not> 15 < length memory"
  shows "recall stored s c memory t = (\<lparr>memories = [], axioms = []\<rparr>, c, s)"
  using assms by (simp add: recall_def STM_CAPACITY_def)

text \<open>\<open>recall\<close> keeps a sound cache sound.\<close>

lemma recall_cache_ok:
  assumes "cache_ok c"
  shows "cache_ok (fst (snd (recall stored s c memory t)))"
proof (cases "15 < length memory")
  case False
  then show ?thesis using assms by (simp add: recall_short)
next
  case True
  then have "\<not> int (length memory) \<le> STM_CAPACITY" by (simp add: STM_CAPACITY_def)
  then have "fst (snd (recall stored s c memory t)) = snd (decayLtm t (ltmOf memory) c)"
    by (simp add: recall_def recallScoring_unfold)
  then show ?thesis using decayLtm_sound[OF assms, of t "ltmOf memory"] by simp
qed

lemma set_slice0_subset: "set (slice0 k xs) \<subseteq> set xs"
proof -
  obtain n where "slice0 k xs = take n xs" using slice0_take by blast
  then show ?thesis by (simp add: set_take_subset)
qed

lemma length_topAtoms: "0 \<le> k \<Longrightarrow> length (topAtoms k ltm scored) \<le> nat k"
  by (simp add: topAtoms_def length_slice0)

lemma topAtoms_elem:
  assumes "x \<in> set (topAtoms k ltm scored)"
  shows "\<exists>item \<in> set scored. 0 < snd item \<and> x = find (\<lambda>b. uuid b = uuid (fst item)) ltm"
proof -
  let ?kept = "sort_key (\<lambda>item. - snd item) (filter (\<lambda>item. snd item > 0) scored)"
  have "x \<in> (\<lambda>item. find (\<lambda>b. uuid b = uuid (fst item)) ltm) ` set (slice0 k ?kept)"
    using assms unfolding topAtoms_def set_map .
  then obtain item where item: "item \<in> set (slice0 k ?kept)"
    and x: "x = find (\<lambda>b. uuid b = uuid (fst item)) ltm"
    by (rule imageE)
  have "item \<in> set ?kept" using item set_slice0_subset[of k ?kept] by (rule subsetD[rotated])
  then have "item \<in> set scored \<and> 0 < snd item" by simp
  then show ?thesis using x by blast
qed

lemma find_uuid_mem:
  "u \<in> uuid ` set ltm \<Longrightarrow> \<exists>a \<in> set ltm. find (\<lambda>b. uuid b = u) ltm = Some a \<and> uuid a = u"
proof (induction ltm)
  case Nil
  then show ?case by simp
next
  case (Cons x ltm)
  show ?case
  proof (cases "uuid x = u")
    case True
    then show ?thesis by simp
  next
    case False
    then have "u \<in> uuid ` set ltm" using Cons.prems by auto
    from Cons.IH[OF this] show ?thesis using False by auto
  qed
qed

lemma find_uuid_distinct:
  "distinct (map uuid ltm) \<Longrightarrow> a \<in> set ltm \<Longrightarrow> find (\<lambda>b. uuid b = uuid a) ltm = Some a"
proof (induction ltm)
  case Nil
  then show ?case by simp
next
  case (Cons x ltm)
  show ?case
  proof (cases "x = a")
    case True
    then show ?thesis by simp
  next
    case False
    then have a: "a \<in> set ltm" using Cons.prems(2) by simp
    then have "uuid a \<in> uuid ` set ltm" by (rule imageI)
    moreover have "uuid x \<notin> uuid ` set ltm" using Cons.prems(1) by simp
    ultimately have "uuid x \<noteq> uuid a" by metis
    moreover have "find (\<lambda>b. uuid b = uuid a) ltm = Some a"
      using Cons.IH[OF _ a] Cons.prems(1) by simp
    ultimately show ?thesis by simp
  qed
qed

text \<open>Whatever the cache holds, the scored items carry the uuids of archive atoms.\<close>

lemma scored_uuids:
  assumes "item \<in> set (map f (filter P (fst (decayLtm t ltm c))))" "\<And>a. fst (f a) = a"
  shows "uuid (fst item) \<in> uuid ` set ltm"
proof -
  obtain a where a: "a \<in> set (fst (decayLtm t ltm c))" and item: "item = f a"
    using assms(1) by auto
  have "uuid a \<in> set (map uuid (fst (decayLtm t ltm c)))" using a by simp
  then have "uuid a \<in> set (map uuid ltm)" by (simp only: decayLtm_uuid)
  then show ?thesis by (simp add: item assms(2))
qed

lemma topAtoms_from_ltm:
  assumes "\<And>item. item \<in> set scored \<Longrightarrow> uuid (fst item) \<in> uuid ` set ltm"
    and "x \<in> set (topAtoms k ltm scored)"
  shows "\<exists>a \<in> set ltm. x = Some a"
proof -
  obtain item where "item \<in> set scored" and x: "x = find (\<lambda>b. uuid b = uuid (fst item)) ltm"
    using topAtoms_elem[OF assms(2)] by blast
  then have "uuid (fst item) \<in> uuid ` set ltm" using assms(1) by blast
  from find_uuid_mem[OF this] show ?thesis using x by auto
qed

lemma recall_from_ltm:
  assumes "x \<in> set (memories (fst (recall stored s c memory t)))
           \<union> set (axioms (fst (recall stored s c memory t)))"
  shows "\<exists>a \<in> set (take (length memory - 15) memory). x = Some a"
proof (cases "15 < length memory")
  case False
  then show ?thesis using assms by (simp add: recall_short)
next
  case True
  let ?d = "fst (decayLtm t (ltmOf memory) c)"
  let ?sm = "map (scoreMemory (expandedOf stored s memory) (followUpsOf stored s memory))
               (filter (\<lambda>a. atype a \<noteq> axiom) ?d)"
  let ?sa = "map (scoreAxiom (stmConceptsOf memory)) (filter (\<lambda>a. atype a = axiom) ?d)"
  have "x \<in> set (topAtoms LTM_RECALL_K (ltmOf memory) ?sm)
        \<or> x \<in> set (topAtoms AXIOM_RECALL_K (ltmOf memory) ?sa)"
    using assms by (simp add: recall_unfold[OF True])
  then have "\<exists>a \<in> set (ltmOf memory). x = Some a"
  proof
    assume "x \<in> set (topAtoms LTM_RECALL_K (ltmOf memory) ?sm)"
    then show ?thesis
      by (rule topAtoms_from_ltm[rotated]) (rule scored_uuids, assumption, simp)
  next
    assume "x \<in> set (topAtoms AXIOM_RECALL_K (ltmOf memory) ?sa)"
    then show ?thesis
      by (rule topAtoms_from_ltm[rotated]) (rule scored_uuids, assumption, simp)
  qed
  then show ?thesis by (simp add: ltm_take)
qed

lemma topAtoms_sound:
  assumes d: "distinct (map uuid ltm)"
    and x: "x \<in> set (topAtoms k ltm (map f (filter P (map (decayedCopy t) ltm))))"
    and f: "\<And>a. fst (f a) = a"
  shows "\<exists>a \<in> set ltm. x = Some a \<and> P (decayedCopy t a) \<and> 0 < snd (f (decayedCopy t a))"
proof -
  obtain item where item: "item \<in> set (map f (filter P (map (decayedCopy t) ltm)))"
    and pos: "0 < snd item" and xf: "x = find (\<lambda>b. uuid b = uuid (fst item)) ltm"
    using topAtoms_elem[OF x] by blast
  from item obtain a where a: "a \<in> set ltm" and p: "P (decayedCopy t a)"
    and it: "item = f (decayedCopy t a)"
    by auto
  have "uuid (fst item) = uuid a" by (simp add: it f)
  then have "x = Some a" using find_uuid_distinct[OF d a] xf by simp
  then show ?thesis using a p pos it by blast
qed


lemma recall_sound:
  assumes "15 < length memory" "cache_ok c"
  shows "fst (recall stored s c memory t) =
     \<lparr>memories = topAtoms LTM_RECALL_K (ltmOf memory)
         (map (scoreMemory (expandedOf stored s memory) (followUpsOf stored s memory))
            (filter (\<lambda>a. atype a \<noteq> axiom) (map (decayedCopy t) (ltmOf memory)))),
      axioms = topAtoms AXIOM_RECALL_K (ltmOf memory)
         (map (scoreAxiom (stmConceptsOf memory))
            (filter (\<lambda>a. atype a = axiom) (map (decayedCopy t) (ltmOf memory))))\<rparr>"
  using decayLtm_sound[OF assms(2), of t "ltmOf memory"] by (simp add: recall_unfold[OF assms(1)])





lemma conceptsOrEmpty_copy [simp]: "conceptsOrEmpty (decayedCopy t a) = conceptsOrEmpty a"
  by (simp add: conceptsOrEmpty_def)







subsection \<open>The example log\<close>

lemma ex_len: "length logExample = 21"
  by (simp add: logExample_def ltmExample_def stmExample_def)

lemma ex_ltm: "ltmOf logExample = ltmExample"
  by (simp add: ltm_take logExample_def ltmExample_def stmExample_def)

lemma ex_stm: "stmOf logExample = stmExample"
  by (simp add: stm_drop logExample_def ltmExample_def stmExample_def)

lemma ex_ltm_len: "length ltmExample = 6"
  by (simp add: ltmExample_def)

lemma ex_nth: "i < 6 \<Longrightarrow> logExample ! i = ltmExample ! i"
  by (simp add: logExample_def nth_append ex_ltm_len)

lemma ex_stmConcepts: "stmConceptsOf logExample = [''p'', ''r'', ''s'']"
  by (simp add: stmConceptsOf_def ex_stm stmExample_def conceptsOrEmpty_def)

lemma ex_followUps: "followUpsOf (Inl DbFailure) recallGraph logExample = [''q'']"
  by (simp add: followUpsOf_def ex_stm stmExample_def getFollowUpConcepts_def recallGraph_def
      conceptsOrEmpty_def compositeKey_def set_add_def followUpConceptOf_def getOrZero_def
      map_delete_def slice0_def Let_def)

lemma ex_expanded:
  "expandedOf (Inl DbFailure) recallGraph logExample = {''p'', ''r'', ''s'', ''q''}"
  by (simp add: expandedOf_def ex_stmConcepts ex_followUps)

lemma ex_distinct: "distinct (map uuid logExample)"
  by (simp add: logExample_def ltmExample_def stmExample_def)

lemma ex_distinct_ltm: "distinct (map uuid (ltmOf logExample))"
  by (simp add: ex_ltm ltmExample_def)

lemma ex_decayed:
  "map (decayedScore 20) ltmExample = [232 / 233, 1, 1, 232 / 233, 1 / 3, 232 / 233]"
  by (simp add: ltmExample_def decayedScore_def decay_spec_def eval_nat_numeral)








text \<open>
  The result on the example log, computed through the code: the memoised Fibonacci from
  the empty cache, the graph walk, both scored pools and the lookup by uuid.
\<close>

lemma ex_recall:
  "fst (recall (Inl DbFailure) recallGraph Map.empty logExample 20)
     = \<lparr>memories = [Some (ltmExample ! 0), Some (ltmExample ! 2), Some (ltmExample ! 4)],
        axioms = [Some (ltmExample ! 1)]\<rparr>"
  by (simp add: recall_unfold ex_len ex_ltm ex_stmConcepts ex_followUps
      ex_expanded topAtoms_def slice0_def LTM_RECALL_K_def AXIOM_RECALL_K_def
      ltmExample_def scoreMemory_def memoryResonance_def scoreAxiom_def axiomResonance_def
      decayAtom_def decay_def fibonacci.simps Let_def mkAtom_def)

section \<open>Claims about recall\<close>

text \<open>
  C5. For a log of at most 15 atoms \<open>recall\<close> returns the result with both lists
  empty, and leaves the cache and the graph service as they are. Nothing is raised: the
  model is total and this branch calls nothing.
\<close>

theorem C5_recall_short_log:
  "int (length memory) \<le> 15 \<Longrightarrow>
     recall stored s c memory currentTurn = (\<lparr>memories = [], axioms = []\<rparr>, c, s)"
  by (simp add: recall_def STM_CAPACITY_def)

text \<open>The fifteen atoms of the example working set, as a log of their own.\<close>

theorem C5_recall_short_log_witness:
  "int (length stmExample) \<le> 15
   \<and> recall (Inl DbFailure) recallGraph Map.empty stmExample 20
       = (\<lparr>memories = [], axioms = []\<rparr>, Map.empty, recallGraph)"
  using C5_recall_short_log[of stmExample "Inl DbFailure" recallGraph Map.empty 20]
  by (simp add: stmExample_def)

text \<open>
  C6. \<open>recall\<close> returns at most 5 memories and at most 3 axioms, and every returned
  entry is an atom standing in the log before the last 15 positions. When the uuids of
  the log are pairwise different, as the data model requires, no returned atom stands at
  one of the last 15 positions.
\<close>

theorem C6_recall_bounds:
  "let r = fst (recall stored s c memory currentTurn)
   in length (memories r) \<le> 5 \<and> length (axioms r) \<le> 3
    \<and> (\<forall>x \<in> set (memories r) \<union> set (axioms r).
          \<exists>i. i + 15 < length memory \<and> x = Some (memory ! i))
    \<and> (distinct (map uuid memory) \<longrightarrow>
         (\<forall>x \<in> set (memories r) \<union> set (axioms r).
            \<forall>j. j < length memory \<and> length memory \<le> j + 15 \<longrightarrow> x \<noteq> Some (memory ! j)))"
proof -
  define r where "r = fst (recall stored s c memory currentTurn)"
  have len: "length (memories r) \<le> 5 \<and> length (axioms r) \<le> 3"
  proof (cases "15 < length memory")
    case False
    then show ?thesis by (simp add: r_def recall_short)
  next
    case True
    have "length (topAtoms LTM_RECALL_K ltm sm) \<le> 5"
      and "length (topAtoms AXIOM_RECALL_K ltm sa) \<le> 3" for ltm sm sa
      using length_topAtoms[of LTM_RECALL_K ltm sm] length_topAtoms[of AXIOM_RECALL_K ltm sa]
      by (simp_all add: LTM_RECALL_K_def AXIOM_RECALL_K_def)
    then show ?thesis by (simp add: r_def recall_unfold[OF True])
  qed
  have pos: "\<exists>i. i + 15 < length memory \<and> x = Some (memory ! i)"
    if mem: "x \<in> set (memories r) \<union> set (axioms r)" for x
  proof -
    obtain a where a: "a \<in> set (take (length memory - 15) memory)" and x: "x = Some a"
      using recall_from_ltm[of x stored s c memory currentTurn] mem unfolding r_def by blast
    then obtain i where "i < length (take (length memory - 15) memory)"
      and "take (length memory - 15) memory ! i = a"
      by (auto simp: in_set_conv_nth)
    then have "i + 15 < length memory \<and> memory ! i = a" by auto
    then show ?thesis using x by blast
  qed
  have sep: "x \<noteq> Some (memory ! j)"
    if d: "distinct (map uuid memory)" and mem: "x \<in> set (memories r) \<union> set (axioms r)"
      and j: "j < length memory" "length memory \<le> j + 15" for x j
  proof -
    obtain i where i: "i + 15 < length memory" and x: "x = Some (memory ! i)"
      using pos[OF mem] by blast
    have "distinct memory" using d by (simp add: distinct_map)
    then have "memory ! i \<noteq> memory ! j"
      using i j by (simp add: nth_eq_iff_index_eq)
    then show ?thesis using x by simp
  qed
  show ?thesis
    unfolding Let_def r_def[symmetric] using len pos sep by blast
qed

text \<open>
  On the example log: three memories and one axiom, all from the first six positions.
\<close>

theorem C6_recall_bounds_witness:
  "distinct (map uuid logExample)
   \<and> fst (recall (Inl DbFailure) recallGraph Map.empty logExample 20)
       = \<lparr>memories = [Some (logExample ! 0), Some (logExample ! 2), Some (logExample ! 4)],
          axioms = [Some (logExample ! 1)]\<rparr>
   \<and> length logExample = 21
   \<and> Some (logExample ! 0) \<noteq> Some (logExample ! 6)
   \<and> Some (logExample ! 1) \<noteq> Some (logExample ! 20)"
  using C6_recall_bounds[of "Inl DbFailure" recallGraph Map.empty logExample 20]
  by (simp add: ex_distinct ex_recall ex_nth ex_len Let_def)







text \<open>
  C10. From a sound cache and with pairwise different uuids in the archive, every
  returned memory is a non-axiom atom of the archive whose final score is positive, and
  every returned axiom is an axiom of the archive whose final score is positive. An
  axiom of the archive that shares no concept with the working set has the final score
  0 and is in neither list.
\<close>

theorem C10_positive_scores:
  assumes "cache_ok c" and "distinct (map uuid (ltmOf memory))"
  shows
    "let stmConcepts = stmConceptsOf memory;
         E = expandedOf stored s memory;
         F = followUpsOf stored s memory;
         r = fst (recall stored s c memory currentTurn)
     in (\<forall>x \<in> set (memories r).
           \<exists>a \<in> set (ltmOf memory). x = Some a \<and> atype a \<noteq> axiom
              \<and> 0 < snd (scoreMemory E F (decayedCopy currentTurn a)))
      \<and> (\<forall>x \<in> set (axioms r).
           \<exists>a \<in> set (ltmOf memory). x = Some a \<and> atype a = axiom
              \<and> 0 < snd (scoreAxiom stmConcepts (decayedCopy currentTurn a)))
      \<and> (\<forall>a \<in> set (ltmOf memory).
           atype a = axiom \<and> set (conceptsOrEmpty a) \<inter> set stmConcepts = {} \<longrightarrow>
             snd (scoreAxiom stmConcepts (decayedCopy currentTurn a)) = 0
             \<and> Some a \<notin> set (axioms r) \<and> Some a \<notin> set (memories r))"
proof -
  define stmC where "stmC = stmConceptsOf memory"
  define E where "E = expandedOf stored s memory"
  define F where "F = followUpsOf stored s memory"
  define r where "r = fst (recall stored s c memory currentTurn)"
  have 1: "\<exists>a \<in> set (ltmOf memory). x = Some a \<and> atype a \<noteq> axiom
              \<and> 0 < snd (scoreMemory E F (decayedCopy currentTurn a))"
    if x: "x \<in> set (memories r)" for x
  proof (cases "15 < length memory")
    case False
    then show ?thesis using x by (simp add: r_def recall_short)
  next
    case True
    have "x \<in> set (topAtoms LTM_RECALL_K (ltmOf memory)
                   (map (scoreMemory E F) (filter (\<lambda>a. atype a \<noteq> axiom)
                      (map (decayedCopy currentTurn) (ltmOf memory)))))"
      using x by (simp add: r_def recall_sound[OF True assms(1)] E_def F_def)
    from topAtoms_sound[OF assms(2) this scoreMemory_fst] show ?thesis by simp
  qed
  have 2: "\<exists>a \<in> set (ltmOf memory). x = Some a \<and> atype a = axiom
              \<and> 0 < snd (scoreAxiom stmC (decayedCopy currentTurn a))"
    if x: "x \<in> set (axioms r)" for x
  proof (cases "15 < length memory")
    case False
    then show ?thesis using x by (simp add: r_def recall_short)
  next
    case True
    have "x \<in> set (topAtoms AXIOM_RECALL_K (ltmOf memory)
                   (map (scoreAxiom stmC) (filter (\<lambda>a. atype a = axiom)
                      (map (decayedCopy currentTurn) (ltmOf memory)))))"
      using x by (simp add: r_def recall_sound[OF True assms(1)] stmC_def)
    from topAtoms_sound[OF assms(2) this scoreAxiom_fst] show ?thesis by simp
  qed
  have 3: "snd (scoreAxiom stmC (decayedCopy currentTurn a)) = 0
             \<and> Some a \<notin> set (axioms r) \<and> Some a \<notin> set (memories r)"
    if ty: "atype a = axiom" and no: "set (conceptsOrEmpty a) \<inter> set stmC = {}" for a
  proof -
    have "filter (\<lambda>x. x \<in> set stmC) (conceptsOrEmpty a) = []"
      using no by (auto simp: filter_empty_conv)
    then have z: "snd (scoreAxiom stmC (decayedCopy currentTurn a)) = 0"
      by (simp add: scoreAxiom_snd axiomResonance_formula)
    have "Some a \<notin> set (axioms r)" using 2[of "Some a"] z by auto
    moreover have "Some a \<notin> set (memories r)" using 1[of "Some a"] ty by auto
    ultimately show ?thesis using z by simp
  qed
  show ?thesis
    unfolding Let_def stmC_def[symmetric] E_def[symmetric] F_def[symmetric] r_def[symmetric]
    using 1 2 3 by blast
qed

text \<open>
  On the example log the axiom at position 3 shares no concept with the working set:
  its final score is 0 and it is in neither list, while the axiom at position 1 is
  returned.
\<close>

theorem C10_positive_scores_witness:
  "cache_ok Map.empty \<and> distinct (map uuid (ltmOf logExample))
   \<and> ltmExample ! 3 \<in> set (ltmOf logExample) \<and> atype (ltmExample ! 3) = axiom
   \<and> set (conceptsOrEmpty (ltmExample ! 3)) \<inter> set (stmConceptsOf logExample) = {}
   \<and> snd (scoreAxiom (stmConceptsOf logExample) (decayedCopy 20 (ltmExample ! 3))) = 0
   \<and> Some (ltmExample ! 3) \<notin> set (axioms (fst (recall (Inl DbFailure) recallGraph Map.empty logExample 20)))
   \<and> Some (ltmExample ! 3) \<notin> set (memories (fst (recall (Inl DbFailure) recallGraph Map.empty logExample 20)))
   \<and> axioms (fst (recall (Inl DbFailure) recallGraph Map.empty logExample 20))
       = [Some (ltmExample ! 1)]
   \<and> snd (scoreAxiom (stmConceptsOf logExample) (decayedCopy 20 (ltmExample ! 1))) = 6"
  using C10_positive_scores[OF cache_ok_empty ex_distinct_ltm, of "Inl DbFailure" recallGraph 20]
  by (simp add: cache_ok_empty ex_distinct_ltm ex_ltm ex_stmConcepts ex_recall Let_def
      ltmExample_def conceptsOrEmpty_def scoreAxiom_def axiomResonance_def decayedCopy_def
      decayedScore_def decay_spec_def mkAtom_def)

section \<open>Properties of recall over object references\<close>

lemma decayLtmRefs_char:
  assumes "\<forall>r \<in> set rs. r < length h"
  shows "decayLtmRefs t rs c h =
           ([length h ..< length h + length rs],
            snd (decayLtm t (map ((!) h) rs) c),
            h @ fst (decayLtm t (map ((!) h) rs) c))"
  using assms
proof (induction rs arbitrary: c h)
  case Nil
  then show ?case by simp
next
  case (Cons r rs)
  obtain copy c1 where da: "decayAtom t (h ! r) c = (copy, c1)" by (cases "decayAtom t (h ! r) c")
  let ?h1 = "h @ [copy]"
  have wf1: "\<forall>r \<in> set rs. r < length ?h1" using Cons.prems by auto
  have same: "map ((!) ?h1) rs = map ((!) h) rs"
    using Cons.prems by (auto simp: nth_append)
  have ih: "decayLtmRefs t rs c1 ?h1 =
           ([length ?h1 ..< length ?h1 + length rs],
            snd (decayLtm t (map ((!) h) rs) c1),
            ?h1 @ fst (decayLtm t (map ((!) h) rs) c1))"
    using Cons.IH[OF wf1, of c1] by (simp only: same)
  have up: "[length h ..< length h + length (r # rs)]
              = length h # [length ?h1 ..< length ?h1 + length rs]"
    by (simp add: upt_rec)
  show ?case
    unfolding up by (simp add: da alloc_def ih split_beta Let_def)
qed

lemma find_map: "find P (map f xs) = map_option f (find (\<lambda>x. P (f x)) xs)"
  by (induction xs) auto

lemma sliceFrom_map: "sliceFrom k (map f xs) = map f (sliceFrom k xs)"
  by (simp add: sliceFrom_def drop_map)

lemma topRefs_topAtoms:
  "map (map_option ((!) h)) (topRefs k h ltm scored)
     = topAtoms k (map ((!) h) ltm) (map (\<lambda>item. (h ! fst item, snd item)) scored)"
proof -
  let ?g = "\<lambda>item. (h ! fst item, snd item)"
  have f: "filter (\<lambda>item. 0 < snd item) (map ?g scored)
             = map ?g (filter (\<lambda>item. 0 < snd item) scored)"
    by (simp add: filter_map comp_def)
  have s: "sort_key (\<lambda>item. - snd item) (map ?g xs) = map ?g (sort_key (\<lambda>item. - snd item) xs)"
    for xs :: "(ref \<times> real) list"
    by (simp add: sort_key_map)
  show ?thesis
    by (simp add: topRefs_def topAtoms_def f s slice0_map find_map comp_def)
qed


lemma length_decayLtm: "length (fst (decayLtm t atoms c)) = length atoms"
  using decayLtm_uuid[of t atoms c] by (metis length_map)

lemma nth_append_upt: "map ((!) (h @ xs)) [length h ..< length h + length xs] = xs"
proof (rule nth_equalityI)
  show "length (map ((!) (h @ xs)) [length h ..< length h + length xs]) = length xs" by simp
next
  fix i assume "i < length (map ((!) (h @ xs)) [length h ..< length h + length xs])"
  then have "i < length xs" by simp
  then show "map ((!) (h @ xs)) [length h ..< length h + length xs] ! i = xs ! i"
    by (simp add: nth_append)
qed

lemma map_nth_append_old:
  "\<forall>r \<in> set rs. r < length h \<Longrightarrow> map ((!) (h @ xs)) rs = map ((!) h) rs"
  by (simp add: nth_append)

lemma set_sliceFrom_subset: "set (sliceFrom k xs) \<subseteq> set xs"
  by (auto simp: sliceFrom_def dest: in_set_dropD)

lemma scoreMemory_pair: "(a, snd (scoreMemory E F a)) = scoreMemory E F a"
  by (simp add: prod_eq_iff)

lemma scoreAxiom_pair: "(a, snd (scoreAxiom stmC a)) = scoreAxiom stmC a"
  by (simp add: prod_eq_iff)

text \<open>
  The store version against the value version: on a well-formed store the returned
  references, read from the store, are the atoms \<open>recall\<close> returns for the log read
  from the store; the new store is the old one followed by the scoring copies.
\<close>

lemma recallRefs_sim:
  assumes wf: "\<forall>r \<in> set memory. r < length h" and long: "15 < length memory"
  shows "recallRefs stored s c h memory t =
           (fst (recallRefs stored s c h memory t),
            h @ fst (decayLtm t (ltmOf (map ((!) h) memory)) c),
            snd (decayLtm t (ltmOf (map ((!) h) memory)) c),
            snd (getFollowUpConcepts stored s (stmOf (map ((!) h) memory)) 10))"
    and "map (map_option ((!) (h @ fst (decayLtm t (ltmOf (map ((!) h) memory)) c))))
           (memoryRefs (fst (recallRefs stored s c h memory t)))
         = memories (fst (recall stored s c (map ((!) h) memory) t))"
    and "map (map_option ((!) (h @ fst (decayLtm t (ltmOf (map ((!) h) memory)) c))))
           (axiomRefs (fst (recallRefs stored s c h memory t)))
         = axioms (fst (recall stored s c (map ((!) h) memory) t))"
proof -
  define log where "log = map ((!) h) memory"
  define stm where "stm = sliceFrom (- STM_CAPACITY) memory"
  define ltm where "ltm = slice0 (- STM_CAPACITY) memory"
  define copies where "copies = fst (decayLtm t (ltmOf log) c)"
  define h' where "h' = h @ copies"
  define refs where "refs = [length h ..< length h + length ltm]"
  have wf_ltm: "\<forall>r \<in> set ltm. r < length h"
    using wf set_slice0_subset[of "- STM_CAPACITY" memory] unfolding ltm_def by blast
  have wf_stm: "\<forall>r \<in> set stm. r < length h"
    using wf set_sliceFrom_subset[of "- STM_CAPACITY" memory] unfolding stm_def by blast
  have ltm_log: "map ((!) h) ltm = ltmOf log"
    by (simp add: ltm_def ltmOf_def log_def slice0_map)
  have stm_log: "map ((!) h) stm = stmOf log"
    by (simp add: stm_def stmOf_def log_def sliceFrom_map)
  have dec: "decayLtmRefs t ltm c h = (refs, snd (decayLtm t (ltmOf log) c), h')"
    using decayLtmRefs_char[OF wf_ltm, of t c]
    by (simp add: ltm_log refs_def h'_def copies_def)
  have len: "length copies = length ltm"
    unfolding copies_def length_decayLtm ltm_log[symmetric] by simp
  have r_ltm: "map ((!) h') ltm = ltmOf log"
    unfolding h'_def using map_nth_append_old[OF wf_ltm] ltm_log by simp
  have r_stm: "map ((!) h') stm = stmOf log"
    unfolding h'_def using map_nth_append_old[OF wf_stm] stm_log by simp
  have r_refs: "map ((!) h') refs = copies"
    unfolding h'_def refs_def len[symmetric] by (rule nth_append_upt)
  have stmC: "concat (map (\<lambda>r. conceptsOrEmpty (h' ! r)) stm) = stmConceptsOf log"
  proof -
    have "map (\<lambda>r. conceptsOrEmpty (h' ! r)) stm = map conceptsOrEmpty (map ((!) h') stm)"
      by simp
    then show ?thesis unfolding r_stm by (simp add: stmConceptsOf_def)
  qed
  have stmC_set: "(\<Union>x\<in>set stm. set (conceptsOrEmpty (h' ! x))) = set (stmConceptsOf log)"
    using arg_cong[OF stmC, of set] by simp
  define F where "F = followUpsOf stored s log"
  define E where "E = expandedOf stored s log"
  define sm where "sm = map (\<lambda>r. (r, snd (scoreMemory E F (h' ! r))))
                          (filter (\<lambda>r. atype (h' ! r) \<noteq> axiom) refs)"
  define sa where "sa = map (\<lambda>r. (r, snd (scoreAxiom (stmConceptsOf log) (h' ! r))))
                          (filter (\<lambda>r. atype (h' ! r) = axiom) refs)"
  have unfold: "recallRefs stored s c h memory t =
      (\<lparr>memoryRefs = topRefs LTM_RECALL_K h' ltm sm, axiomRefs = topRefs AXIOM_RECALL_K h' ltm sa\<rparr>,
       h', snd (decayLtm t (ltmOf log) c), snd (getFollowUpConcepts stored s (stmOf log) 10))"
    using long
    by (simp add: recallRefs_def STM_CAPACITY_def Let_def split_beta
        stm_def[unfolded STM_CAPACITY_def, symmetric] ltm_def[unfolded STM_CAPACITY_def, symmetric]
        dec stmC stmC_set r_stm sm_def sa_def F_def E_def followUpsOf_def expandedOf_def)
  show "recallRefs stored s c h memory t =
           (fst (recallRefs stored s c h memory t),
            h @ fst (decayLtm t (ltmOf (map ((!) h) memory)) c),
            snd (decayLtm t (ltmOf (map ((!) h) memory)) c),
            snd (getFollowUpConcepts stored s (stmOf (map ((!) h) memory)) 10))"
    unfolding unfold by (simp add: h'_def copies_def log_def)
  have sm_val: "map (\<lambda>item. (h' ! fst item, snd item)) sm
                  = map (scoreMemory E F) (filter (\<lambda>a. atype a \<noteq> axiom) copies)"
    unfolding sm_def r_refs[symmetric]
    by (simp add: filter_map comp_def scoreMemory_pair)
  have sa_val: "map (\<lambda>item. (h' ! fst item, snd item)) sa
                  = map (scoreAxiom (stmConceptsOf log)) (filter (\<lambda>a. atype a = axiom) copies)"
    unfolding sa_def r_refs[symmetric]
    by (simp add: filter_map comp_def scoreAxiom_pair)
  have long': "15 < length log" using long by (simp add: log_def)
  show "map (map_option ((!) (h @ fst (decayLtm t (ltmOf (map ((!) h) memory)) c))))
           (memoryRefs (fst (recallRefs stored s c h memory t)))
         = memories (fst (recall stored s c (map ((!) h) memory) t))"
    unfolding log_def[symmetric] copies_def[symmetric] h'_def[symmetric]
    by (simp add: unfold topRefs_topAtoms r_ltm sm_val recall_unfold[OF long'] E_def F_def
        copies_def)
  show "map (map_option ((!) (h @ fst (decayLtm t (ltmOf (map ((!) h) memory)) c))))
           (axiomRefs (fst (recallRefs stored s c h memory t)))
         = axioms (fst (recall stored s c (map ((!) h) memory) t))"
    unfolding log_def[symmetric] copies_def[symmetric] h'_def[symmetric]
    by (simp add: unfold topRefs_topAtoms r_ltm sa_val recall_unfold[OF long'] copies_def)
qed


lemma recallRefs_short:
  assumes "\<not> 15 < length memory"
  shows "recallRefs stored s c h memory t = (\<lparr>memoryRefs = [], axiomRefs = []\<rparr>, h, c, s)"
  using assms by (simp add: recallRefs_def STM_CAPACITY_def)

lemma find_Some_mem: "find P xs = Some x \<Longrightarrow> x \<in> set xs"
  by (auto simp: find_Some_iff)

lemma topRefs_elem:
  assumes "x \<in> set (topRefs k h ltm scored)"
  shows "x = None \<or> (\<exists>r \<in> set ltm. x = Some r)"
proof -
  have "x \<in> (\<lambda>item. find (\<lambda>b. uuid (h ! b) = uuid (h ! fst item)) ltm)
              ` set (slice0 k (sort_key (\<lambda>item. - snd item) (filter (\<lambda>item. 0 < snd item) scored)))"
    using assms unfolding topRefs_def set_map .
  then obtain item where x: "x = find (\<lambda>b. uuid (h ! b) = uuid (h ! fst item)) ltm"
    and "item \<in> set (slice0 k (sort_key (\<lambda>item. - snd item) (filter (\<lambda>item. 0 < snd item) scored)))"
    by (rule imageE)
  show ?thesis
  proof (cases x)
    case None
    then show ?thesis by simp
  next
    case (Some r)
    then have "r \<in> set ltm" using x find_Some_mem[of _ ltm r] by simp
    then show ?thesis using Some by simp
  qed
qed

lemma recallRefs_refs:
  assumes "15 < length memory"
    and "x \<in> set (memoryRefs (fst (recallRefs stored s c h memory t)))
             \<union> set (axiomRefs (fst (recallRefs stored s c h memory t)))"
  shows "x = None \<or> (\<exists>r \<in> set (slice0 (- STM_CAPACITY) memory). x = Some r)"
proof -
  have "\<exists>k h' sc. x \<in> set (topRefs k h' (slice0 (- STM_CAPACITY) memory) sc)"
    using assms by (auto simp: recallRefs_def STM_CAPACITY_def Let_def split_beta)
  then show ?thesis using topRefs_elem by blast
qed

subsection \<open>The example store\<close>

lemma ex_refs_ltm: "slice0 (- STM_CAPACITY) refsExample = [0, 1, 2, 3, 4, 5]"
  by (simp add: refsExample_def slice0_def STM_CAPACITY_def)

lemma ex_refs_stm: "sliceFrom (- STM_CAPACITY) refsExample = [6, 7, 8, 9, 10, 11, 12, 13, 14, 15, 16, 17, 18, 19, 20]"
  by (simp add: refsExample_def sliceFrom_def STM_CAPACITY_def)

lemma ex_decayRefs:
  "decayLtmRefs 20 [0, 1, 2, 3, 4, 5] Map.empty logExample
     = ([21, 22, 23, 24, 25, 26], snd (decayLtm 20 ltmExample Map.empty),
        logExample @ map (decayedCopy 20) ltmExample)"
proof -
  have wf: "\<forall>r \<in> set [0, 1, 2, 3, 4, 5]. r < length logExample" by (simp add: ex_len)
  have m: "map ((!) logExample) [0, 1, 2, 3, 4, 5] = ltmExample"
    by (simp add: logExample_def ltmExample_def)
  have u: "[length logExample ..< length logExample + length [0::nat, 1, 2, 3, 4, 5]]
             = [21, 22, 23, 24, 25, 26]"
    by (simp add: ex_len upt_rec)
  show ?thesis
    using decayLtmRefs_char[OF wf, of 20 Map.empty] decayLtm_sound[OF cache_ok_empty, of 20 ltmExample]
    unfolding m u by simp
qed


lemma ex_store_nth:
  "map ((!) storeExample) [6, 7, 8, 9, 10, 11, 12, 13, 14, 15, 16, 17, 18, 19, 20] = stmExample"
  "map ((!) storeExample) [0, 1, 2, 3, 4, 5] = ltmExample"
  "map ((!) storeExample) [21, 22, 23, 24, 25, 26] = map (decayedCopy 20) ltmExample"
  by (simp_all add: storeExample_def logExample_def ltmExample_def stmExample_def)

lemma ex_store_followUps:
  "getFollowUpConcepts (Inl DbFailure) recallGraph stmExample 10 = ([''q''], recallGraph)"
  by (simp add: stmExample_def getFollowUpConcepts_def recallGraph_def
      conceptsOrEmpty_def compositeKey_def set_add_def followUpConceptOf_def getOrZero_def
      map_delete_def slice0_def Let_def)

lemma ex_store_scoredMemories:
  "map (\<lambda>r. (r, snd (scoreMemory {''p'', ''r'', ''s'', ''q''} [''q''] (storeExample ! r))))
     (filter (\<lambda>r. atype (storeExample ! r) \<noteq> axiom) [21, 22, 23, 24, 25, 26])
   = [(21, 928 / 233), (23, 3), (25, 11 / 10), (26, 0)]"
  by (simp add: storeExample_def logExample_def ltmExample_def stmExample_def
      scoreMemory_def memoryResonance_def decayedCopy_def decayedScore_def decay_spec_def
      eval_nat_numeral Let_def mkAtom_def)

lemma ex_store_scoredAxioms:
  "map (\<lambda>r. (r, snd (scoreAxiom [''p'', ''r'', ''s''] (storeExample ! r))))
     (filter (\<lambda>r. atype (storeExample ! r) = axiom) [21, 22, 23, 24, 25, 26])
   = [(22, 6), (24, 0)]"
  by (simp add: storeExample_def logExample_def ltmExample_def stmExample_def
      scoreAxiom_def axiomResonance_def decayedCopy_def decayedScore_def decay_spec_def
      eval_nat_numeral Let_def mkAtom_def)

lemma ex_store_uuid:
  "map (\<lambda>r. uuid (storeExample ! r)) [0, 1, 2, 3, 4, 5, 21, 22, 23, 24, 25, 26]
     = [''m0'', ''m1'', ''m2'', ''m3'', ''m4'', ''m5'', ''m0'', ''m1'', ''m2'', ''m3'', ''m4'', ''m5'']"
  by (simp add: storeExample_def logExample_def ltmExample_def stmExample_def decayedCopy_def)

lemma ex_topRefs:
  "topRefs LTM_RECALL_K storeExample [0, 1, 2, 3, 4, 5]
     [(21, 928 / 233), (23, 3), (25, 11 / 10), (26, 0)] = [Some 0, Some 2, Some 4]"
  "topRefs AXIOM_RECALL_K storeExample [0, 1, 2, 3, 4, 5] [(22, 6), (24, 0)] = [Some 1]"
  using ex_store_uuid
  by (simp_all add: topRefs_def LTM_RECALL_K_def AXIOM_RECALL_K_def slice0_def)


lemma ex_store_stmConcepts:
  "concat (map (\<lambda>r. conceptsOrEmpty (storeExample ! r))
     [6, 7, 8, 9, 10, 11, 12, 13, 14, 15, 16, 17, 18, 19, 20]) = [''p'', ''r'', ''s'']"
proof -
  have "map (\<lambda>r. conceptsOrEmpty (storeExample ! r))
          [6, 7, 8, 9, 10, 11, 12, 13, 14, 15, 16, 17, 18, 19, 20]
        = map conceptsOrEmpty (map ((!) storeExample)
            [6, 7, 8, 9, 10, 11, 12, 13, 14, 15, 16, 17, 18, 19, 20])"
    by simp
  then show ?thesis
    unfolding ex_store_nth by (simp add: stmExample_def conceptsOrEmpty_def)
qed

lemma ex_recallRefs:
  "recallRefs (Inl DbFailure) recallGraph Map.empty logExample refsExample 20
     = (\<lparr>memoryRefs = [Some 0, Some 2, Some 4], axiomRefs = [Some 1]\<rparr>,
        storeExample, snd (decayLtm 20 ltmExample Map.empty), recallGraph)"
proof -
  have long: "\<not> int (length refsExample) \<le> STM_CAPACITY"
    by (simp add: refsExample_def STM_CAPACITY_def)
  have e: "set ([''p'', ''r'', ''s''] @ [''q'']) = {''p'', ''r'', ''s'', ''q''}" by auto
  show ?thesis
    unfolding recallRefs_def ex_refs_ltm ex_refs_stm ex_decayRefs storeExample_def[symmetric]
      Let_def split_conv ex_store_stmConcepts ex_store_nth ex_store_followUps e
      ex_store_scoredMemories ex_store_scoredAxioms ex_topRefs
    using long by simp
qed

section \<open>The claim about the atoms recall is handed\<close>

text \<open>
  C9. On a store in which every reference of the log is allocated, \<open>recall\<close> leaves
  every object that existed before the call as it was: the new store is the old one
  followed by the scoring copies, so every atom of the log keeps all its fields, among
  them \<open>activationScore\<close> and \<open>lastActivatedTurn\<close>. Every returned reference is a
  reference standing in the log before the last 15 positions, so it is a canonical atom
  and no scoring copy, and reading it gives the atom as the log has it. Read from the
  store, the returned references are the atoms the value version of \<open>recall\<close> returns
  for the log, each of them an atom of that log.
\<close>

theorem C9_recall_frame:
  assumes "\<forall>r \<in> set memory. r < length h"
  shows
    "let (res, h', c', s') = recallRefs stored s c h memory currentTurn;
         log = map ((!) h) memory;
         r = fst (recall stored s c log currentTurn)
     in take (length h) h' = h
      \<and> (\<forall>x \<in> set memory.
            h' ! x = h ! x
            \<and> activationScore (h' ! x) = activationScore (h ! x)
            \<and> lastActivatedTurn (h' ! x) = lastActivatedTurn (h ! x))
      \<and> (\<forall>x \<in> set (memoryRefs res) \<union> set (axiomRefs res).
            \<exists>i. i + 15 < length memory \<and> x = Some (memory ! i) \<and> h' ! (memory ! i) = log ! i)
      \<and> map (map_option ((!) h')) (memoryRefs res) = memories r
      \<and> map (map_option ((!) h')) (axiomRefs res) = axioms r
      \<and> (\<forall>x \<in> set (memories r) \<union> set (axioms r).
            \<exists>i. i + 15 < length log \<and> x = Some (log ! i))"
proof (cases "15 < length memory")
  case False
  have "recall stored s c (map ((!) h) memory) currentTurn
          = (\<lparr>memories = [], axioms = []\<rparr>, c, s)"
    using False by (simp add: recall_short)
  then show ?thesis using assms by (simp add: recallRefs_short[OF False])
next
  case True
  define log where "log = map ((!) h) memory"
  define res where "res = fst (recallRefs stored s c h memory currentTurn)"
  define h' where "h' = h @ fst (decayLtm currentTurn (ltmOf log) c)"
  define r where "r = fst (recall stored s c log currentTurn)"
  note sim = recallRefs_sim[OF assms True, where stored = stored and s = s and c = c
      and t = currentTurn, folded log_def, folded h'_def res_def r_def]
  have 1: "take (length h) h' = h" by (simp add: h'_def)
  have 2: "h' ! x = h ! x" if "x \<in> set memory" for x
    using assms that by (simp add: h'_def nth_append)
  have vals: "\<exists>i. i + 15 < length log \<and> x = Some (log ! i)"
    if x: "x \<in> set (memories r) \<union> set (axioms r)" for x
  proof -
    obtain a where "a \<in> set (take (length log - 15) log)" and xa: "x = Some a"
      using recall_from_ltm[of x stored s c log currentTurn] x unfolding r_def by blast
    then obtain i where "i < length (take (length log - 15) log)"
      and "take (length log - 15) log ! i = a"
      by (auto simp: in_set_conv_nth)
    then have "i + 15 < length log \<and> log ! i = a" by auto
    then show ?thesis using xa by blast
  qed
  have 3: "\<exists>i. i + 15 < length memory \<and> x = Some (memory ! i) \<and> h' ! (memory ! i) = log ! i"
    if x: "x \<in> set (memoryRefs res) \<union> set (axiomRefs res)" for x
  proof -
    have "map_option ((!) h') x \<in> set (memories r) \<union> set (axioms r)"
      using x sim(2,3) by (metis (no_types, lifting) Un_iff image_eqI list.set_map)
    then have "map_option ((!) h') x \<noteq> None" using vals by auto
    then have "x \<noteq> None" by auto
    then obtain ref where "ref \<in> set (slice0 (- STM_CAPACITY) memory)" and xr: "x = Some ref"
      using recallRefs_refs[OF True, of x stored s c h currentTurn] x unfolding res_def by blast
    then have "ref \<in> set (take (length memory - 15) memory)"
      by (simp add: slice0_def STM_CAPACITY_def nat_diff_distrib')
    then obtain i where "i < length (take (length memory - 15) memory)"
      and "take (length memory - 15) memory ! i = ref"
      by (auto simp: in_set_conv_nth)
    then have i: "i + 15 < length memory" "memory ! i = ref" by auto
    have "i < length memory" using i(1) by simp
    then have "memory ! i \<in> set memory" by (rule nth_mem)
    then have "h' ! (memory ! i) = h ! (memory ! i)" by (rule 2)
    then have "h' ! (memory ! i) = log ! i"
      using \<open>i < length memory\<close> by (simp add: log_def)
    then show ?thesis using i xr by blast
  qed
  have split: "recallRefs stored s c h memory currentTurn
     = (res, h', snd (decayLtm currentTurn (ltmOf log) c),
        snd (getFollowUpConcepts stored s (stmOf log) 10))"
    using sim(1) by simp
  show ?thesis
    unfolding split Let_def split_conv log_def[symmetric] r_def[symmetric]
    using 1 2 3 sim(2,3) vals by auto
qed

text \<open>
  The example log as a store: the atoms at the addresses 0 to 20 and the log the list
  of these addresses. The call returns the addresses 0, 2, 4 and 1, the first 21 objects
  are as before, and the scoring copy of the atom at 0 is the new object at 21, with
  the decayed score.
\<close>

theorem C9_recall_frame_witness:
  "(let (res, h', c', s') =
          recallRefs (Inl DbFailure) recallGraph Map.empty logExample refsExample 20
    in res = \<lparr>memoryRefs = [Some 0, Some 2, Some 4], axiomRefs = [Some 1]\<rparr>
     \<and> take (length logExample) h' = logExample
     \<and> h' ! 0 = logExample ! 0
     \<and> activationScore (h' ! 0) = Some 1
     \<and> uuid (h' ! 21) = uuid (h' ! 0)
     \<and> activationScore (h' ! 21) = Some (232 / 233)
     \<and> map (map_option ((!) h')) (memoryRefs res)
         = memories (fst (recall (Inl DbFailure) recallGraph Map.empty logExample 20)))"
proof -
  have wf: "\<forall>r \<in> set refsExample. r < length logExample"
    by (simp add: refsExample_def ex_len)
  have log: "map ((!) logExample) refsExample = logExample"
    by (simp add: refsExample_def logExample_def ltmExample_def stmExample_def)
  have frame: "take (length logExample) storeExample = logExample
      \<and> map (map_option ((!) storeExample)) [Some 0, Some 2, Some 4]
          = memories (fst (recall (Inl DbFailure) recallGraph Map.empty logExample 20))"
    using C9_recall_frame[OF wf, of "Inl DbFailure" recallGraph Map.empty 20]
    unfolding ex_recallRefs Let_def split_conv log by simp
  have vals: "storeExample ! 0 = logExample ! 0"
    "activationScore (storeExample ! 0) = Some 1"
    "uuid (storeExample ! 21) = uuid (storeExample ! 0)"
    "activationScore (storeExample ! 21) = Some (232 / 233)"
    by (simp_all add: storeExample_def logExample_def ltmExample_def stmExample_def
        decayedCopy_def decayedScore_def decay_spec_def eval_nat_numeral)
  show ?thesis
    unfolding ex_recallRefs Let_def split_conv using frame vals by simp
qed

end
